theory Spec2Isabelle
  imports Complex_Main "HOL-Library.Word"
begin

unbundle bit_operations_syntax

section \<open>Constants and sample records of astro\<close>

text \<open>
  The program computes over Go's \<open>float64\<close>. The embedding reads every \<open>float64\<close> as a
  real number: comparisons, sums and products are the exact ones, so what is proved
  below is the control flow and the arithmetic of the code up to rounding. Go's \<open>int\<close>
  is a 64-bit word where bits are tested (the event flags) and an unbounded integer
  where it only counts loop iterations below a fixed bound.
\<close>

definition pipi :: real where
  "pipi = 2 * pi"

definition radian :: real where
  "radian = pi / 180"

definition radsec :: real where
  "radsec = radian / 3600"

definition converge :: real where
  "converge = 1 / 10 ^ 14"

definition per :: real where
  "per = 1"

definition npts :: nat where
  "npts = 12"

definition deld :: real where
  "deld = per / real npts"

definition maxe :: real where
  "maxe = 999 / 1000"

definition nevents :: nat where
  "nevents = 100"

record obj1 =
  ra :: real
  decl2 :: real
  semi2 :: real
  az :: real
  el :: real
  mag :: real

section \<open>Angle normalisation\<close>

text \<open>
  \<open>pinorm\<close> of \<open>src/astro.go\<close> is two loops: add \<open>pipi\<close> while the angle is below
  \<open>-pi\<close>, then subtract \<open>pipi\<close> while it is above \<open>pi\<close>. Each loop is a recursive
  function whose termination is proved from the distance to the interval.
\<close>

function pinorm_up :: "real \<Rightarrow> real" where
  "pinorm_up a = (if a < - pi then pinorm_up (a + pipi) else a)"
  by pat_completeness auto
termination
proof (relation "measure (\<lambda>a. nat \<lceil>(- pi - a) / pipi\<rceil>)")
  show "wf (measure (\<lambda>a. nat \<lceil>(- pi - a) / pipi\<rceil>))"
    by simp
next
  fix a :: real
  assume lt: "a < - pi"
  have eq: "(- pi - (a + pipi)) / pipi = (- pi - a) / pipi - 1"
    by (simp add: pipi_def field_simps)
  have pos: "0 < (- pi - a) / pipi"
    using lt by (simp add: pipi_def)
  have "\<lceil>(- pi - a) / pipi - 1\<rceil> = \<lceil>(- pi - a) / pipi\<rceil> - 1"
    by (simp add: ceiling_diff_one)
  moreover have "0 < \<lceil>(- pi - a) / pipi\<rceil>"
    using pos by (simp add: ceiling_less_iff less_ceiling_iff)
  ultimately show "(a + pipi, a) \<in> measure (\<lambda>a. nat \<lceil>(- pi - a) / pipi\<rceil>)"
    by (simp add: eq)
qed

function pinorm_down :: "real \<Rightarrow> real" where
  "pinorm_down a = (if a > pi then pinorm_down (a - pipi) else a)"
  by pat_completeness auto
termination
proof (relation "measure (\<lambda>a. nat \<lceil>(a - pi) / pipi\<rceil>)")
  show "wf (measure (\<lambda>a. nat \<lceil>(a - pi) / pipi\<rceil>))"
    by simp
next
  fix a :: real
  assume gt: "a > pi"
  have eq: "(a - pipi - pi) / pipi = (a - pi) / pipi - 1"
    by (simp add: pipi_def field_simps)
  have pos: "0 < (a - pi) / pipi"
    using gt by (simp add: pipi_def)
  have "\<lceil>(a - pi) / pipi - 1\<rceil> = \<lceil>(a - pi) / pipi\<rceil> - 1"
    by (simp add: ceiling_diff_one)
  moreover have "0 < \<lceil>(a - pi) / pipi\<rceil>"
    using pos by (simp add: ceiling_less_iff less_ceiling_iff)
  ultimately show "(a - pipi, a) \<in> measure (\<lambda>a. nat \<lceil>(a - pi) / pipi\<rceil>)"
    by (simp add: eq)
qed

definition pinorm :: "real \<Rightarrow> real" where
  "pinorm a = pinorm_down (pinorm_up a)"

declare pinorm_up.simps [simp del]

declare pinorm_down.simps [simp del]

text \<open>
  The functions above read the loops over the reals, where adding \<open>pipi\<close> is exact;
  they stand for \<open>pinorm\<close> where its argument is a difference of stored angles (in
  \<open>geo\<close> and \<open>set3pt\<close>). For an arbitrary \<open>float64\<close> argument the rounding of the
  addition matters: \<open>a += pipi\<close> stores the sum rounded to the nearest \<open>float64\<close>, and
  for a large \<open>a\<close> that is \<open>a\<close> itself. The definitions below are the loops with that
  rounding.

  \<open>rne\<close> rounds to the nearest integer, ties to the even one. A nonzero \<open>float64\<close>
  \<open>x\<close> with \<open>2^e \<le> |x| < 2^(e+1)\<close> is a multiple of \<open>2^(e-52)\<close>, and below
  \<open>2^(-1022)\<close> the spacing stays \<open>2^(-1074)\<close>: \<open>ulp64 x\<close> is that spacing and
  \<open>round64 x\<close> the multiple of it nearest to \<open>x\<close>, the result of a \<open>float64\<close> operation
  whose exact result is \<open>x\<close>. (An exact result of magnitude \<open>2^1024\<close> or more would give
  an infinity; adding \<open>pipi\<close> to a value below \<open>-pi\<close>, or subtracting it from one
  above \<open>pi\<close>, never increases the magnitude.)
\<close>

definition rne :: "real \<Rightarrow> int" where
  "rne x =
     (let f = \<lfloor>x\<rfloor> in
      if x - of_int f < 1 / 2 then f
      else if x - of_int f > 1 / 2 then f + 1
      else if even f then f else f + 1)"

definition expo :: "real \<Rightarrow> int" where
  "expo x = max \<lfloor>log 2 \<bar>x\<bar>\<rfloor> (- 1022)"

definition ulp64 :: "real \<Rightarrow> real" where
  "ulp64 x = 2 powr of_int (expo x - 52)"

definition round64 :: "real \<Rightarrow> real" where
  "round64 x = (if x = 0 then 0 else of_int (rne (x / ulp64 x)) * ulp64 x)"

text \<open>
  \<open>pi64\<close> is \<open>math.Pi\<close> as a \<open>float64\<close>, the value with which \<open>a\<close> is compared;
  \<open>pipi64\<close> is the constant \<open>pipi = 2 * math.Pi\<close> as a \<open>float64\<close>. The loops have no
  bound on their iterations: they are partial functions, \<open>None\<close> when a loop does not
  end.
\<close>

definition pi64 :: real where
  "pi64 = 884279719003555 / 2 ^ 48"

definition pipi64 :: real where
  "pipi64 = 2 * pi64"

partial_function (option) pinorm_up64 :: "real \<Rightarrow> real option" where
  "pinorm_up64 a = (if a < - pi64 then pinorm_up64 (round64 (a + pipi64)) else Some a)"

partial_function (option) pinorm_down64 :: "real \<Rightarrow> real option" where
  "pinorm_down64 a = (if a > pi64 then pinorm_down64 (round64 (a - pipi64)) else Some a)"

definition pinorm64 :: "real \<Rightarrow> real option" where
  "pinorm64 a = (case pinorm_up64 a of None \<Rightarrow> None | Some b \<Rightarrow> pinorm_down64 b)"

text \<open>
  Go's \<open>math.Mod(x, y)\<close> is the remainder of the division truncated towards zero: its
  sign is that of \<open>x\<close> and its magnitude is below that of \<open>y\<close>. \<open>trunc\<close> is that
  truncation, \<open>fmod\<close> the remainder. (For \<open>y = 0\<close> Go returns NaN; no caller below
  passes a zero divisor.)
\<close>

definition trunc :: "real \<Rightarrow> int" where
  "trunc x = (if 0 \<le> x then \<lfloor>x\<rfloor> else \<lceil>x\<rceil>)"

definition fmod :: "real \<Rightarrow> real \<Rightarrow> real" where
  "fmod x y = x - y * of_int (trunc (x / y))"

text \<open>\<open>piNorm\<close> of \<open>src/unnamed/part_000\<close> replaces the loops by one remainder.\<close>

definition piNorm :: "real \<Rightarrow> real" where
  "piNorm a = fmod (a + pi) (2 * pi) - pi"

text \<open>
  Go's \<open>math.Atan2(y, x)\<close>: the angle of the point \<open>(x, y)\<close>, read over the reals
  (no signed zero), so the value at \<open>y = 0\<close>, \<open>x < 0\<close> is \<open>pi\<close>.
\<close>

definition atan2 :: "real \<Rightarrow> real \<Rightarrow> real" where
  "atan2 y x =
     (if 0 < x then arctan (y / x)
      else if x < 0 then (if 0 \<le> y then arctan (y / x) + pi else arctan (y / x) - pi)
      else if 0 < y then pi / 2
      else if y < 0 then - (pi / 2)
      else 0)"

definition pyth :: "real \<Rightarrow> real" where
  "pyth x = (let x2 = x * x; x3 = (if x2 > 1 then 1 else x2) in sqrt (1 - x3))"

text \<open>
  The separation of two samples in seconds of arc. It is the program's \<open>dist\<close>;
  the name \<open>dist_obj\<close> keeps it apart from the metric \<open>dist\<close> of HOL.
\<close>

definition dist_obj :: "obj1 \<Rightarrow> obj1 \<Rightarrow> real" where
  "dist_obj o1 o2 =
     (let d = sin (decl2 o1) * sin (decl2 o2)
            + cos (decl2 o1) * cos (decl2 o2) * cos (ra o1 - ra o2)
      in \<bar>atan2 (pyth d) d\<bar> / radsec)"

section \<open>Geocentric to topocentric coordinates\<close>

text \<open>
  The program keeps the quantities of the current sample in package-level variables.
  \<open>genv\<close> holds the ones \<open>geo\<close> reads and writes; its first six fields are the ones
  \<open>setobj\<close> copies into a sample, so the record extends \<open>obj1\<close>. The other variables
  of the ephemeris (those only the orbital models use) live in the record's extension.
\<close>

record genv = obj1 +
  day :: real
  gst :: real
  alpha :: real
  delta :: real
  wlong :: real
  erad :: real
  glat :: real
  hp :: real
  semi :: real
  nlat :: real
  lha :: real
  decl :: real

text \<open>
  \<open>geo\<close> of \<open>src/astro.go\<close>. Where Go divides by a zero \<open>f\<close> the result is an
  infinity or NaN; HOL returns 0 there. No statement below depends on \<open>semi2\<close>.
\<close>

definition geo :: "'a genv_scheme \<Rightarrow> 'a genv_scheme" where
  "geo g =
     (let lha0 = gst g - alpha g - wlong g;
          decl0 = delta g;
          sa = cos decl0 * sin lha0;
          ca = cos decl0 * cos lha0 - erad g * cos (glat g) * sin (hp g);
          sd = sin decl0 - erad g * sin (glat g) * sin (hp g);
          lha1 = atan2 sa ca;
          decl2a = atan2 sd (sqrt (sa * sa + ca * ca));
          f0 = sqrt (sa * sa + ca * ca + sd * sd);
          semi2a = semi g / f0;
          ra0 = gst g - lha1 - wlong g;
          ra1 = pinorm ra0;
          sel = sin (nlat g) * sin decl2a + cos (nlat g) * cos decl2a * cos lha1;
          el0 = atan2 sel (pyth sel);
          saz = sin lha1 * cos decl2a;
          caz = cos (nlat g) * sin decl2a - sin (nlat g) * cos decl2a * cos lha1;
          az0 = pi + atan2 saz (- caz)
      in g\<lparr>ra := ra1, decl2 := decl2a, semi2 := semi2a, az := az0 / radian,
           el := el0 / radian, lha := lha1, decl := decl0\<rparr>)"

text \<open>
  \<open>geo\<close> of \<open>src/unnamed/part_000\<close>: the same computation with \<open>piNorm\<close>, and with
  \<open>delta\<close> read directly (the variable \<open>decl\<close> is not written).
\<close>

definition geo_p :: "'a genv_scheme \<Rightarrow> 'a genv_scheme" where
  "geo_p g =
     (let lha0 = gst g - alpha g - wlong g;
          sa = cos (delta g) * sin lha0;
          ca = cos (delta g) * cos lha0 - erad g * cos (glat g) * sin (hp g);
          sd = sin (delta g) - erad g * sin (glat g) * sin (hp g);
          lha1 = atan2 sa ca;
          decl2a = atan2 sd (sqrt (sa * sa + ca * ca));
          f0 = sqrt (sa * sa + ca * ca + sd * sd);
          semi2a = semi g / f0;
          ra0 = gst g - lha1 - wlong g;
          ra1 = piNorm ra0;
          sel = sin (nlat g) * sin decl2a + cos (nlat g) * cos decl2a * cos lha1;
          el0 = atan2 sel (pyth sel) / radian;
          saz = sin lha1 * cos decl2a;
          caz = cos (nlat g) * sin decl2a - sin (nlat g) * cos decl2a * cos lha1;
          az0 = (pi + atan2 saz (- caz)) / radian
      in g\<lparr>ra := ra1, decl2 := decl2a, semi2 := semi2a, az := az0, el := el0,
           lha := lha1\<rparr>)"

definition setobj :: "'a genv_scheme \<Rightarrow> obj1" where
  "setobj g = \<lparr>ra = ra g, decl2 = decl2 g, semi2 = semi2 g, az = az g, el = el g, mag = mag g\<rparr>"

section \<open>The comet's orbit and Kepler's equation\<close>

text \<open>
  Every classical body solves Kepler's equation by the same loop, which has no bound
  on its iterations: it is a partial function, \<open>None\<close> when the loop does not end.
\<close>

partial_function (option) kepler :: "real \<Rightarrow> real \<Rightarrow> real \<Rightarrow> real option" where
  "kepler ecc anom enom =
     (let dele = (anom - enom + ecc * sin enom) / (1 - ecc * cos enom);
          enom1 = enom + dele
      in if \<bar>dele\<bar> \<le> converge then Some enom1 else kepler ecc anom enom1)"

record cometElem =
  ce_t :: real
  ce_q :: real
  ce_e :: real
  ce_i :: real
  ce_w :: real
  ce_o :: real

text \<open>
  The elements of 153P/Ikeya-Zhang that \<open>comet\<close> hard-codes. The time of perihelion
  comes from the calendar conversion \<open>timeToJulian\<close>, taken here as the argument \<open>tj\<close>.
  The fields \<open>t, q, e, i, w, o\<close> of the source carry the prefix \<open>ce_\<close>.
\<close>

definition elem :: "real \<Rightarrow> cometElem" where
  "elem tj = \<lparr>ce_t = tj + 2415020, ce_q = 0.5070601, ce_e = 0.990111, ce_i = 28.12106,
     ce_w = 34.6666, ce_o = 93.1206\<rparr>"

text \<open>
  \<open>comet\<close> up to its call of the loop: the eccentricity (clamped), the mean anomaly
  and the first guess of the eccentric anomaly, from the elements and the ephemeris day.
\<close>

definition comet_kepler_args :: "cometElem \<Rightarrow> real \<Rightarrow> real \<times> real \<times> real" where
  "comet_kepler_args elm eday =
     (let ecc0 = ce_e elm;
          ecc = (if ecc0 > maxe then maxe else ecc0);
          mrad = ce_q elm / (1 - ecc);
          motion = 0.01720209895 * sqrt (1 / (mrad * mrad * mrad)) / radian;
          anom = (eday - (ce_t elm - 2415020)) * motion * radian;
          enom = anom + ecc * sin anom
      in (ecc, anom, enom))"

definition comet_enom :: "cometElem \<Rightarrow> real \<Rightarrow> real option" where
  "comet_enom elm eday =
     (case comet_kepler_args elm eday of (ecc, anom, enom) \<Rightarrow> kepler ecc anom enom)"

section \<open>Threshold crossings\<close>

text \<open>
  A body carries its name, the function that computes its position into the
  package-level variables, and the \<open>npts + 2\<close> samples of the current window. Go's array
  type fixes the number of samples; here it is a list, and the statements below assume
  its length.
\<close>

record 'a obj2 =
  name :: string
  fname :: string
  f :: "'a genv_scheme \<Rightarrow> 'a genv_scheme"
  point :: "obj1 list"

text \<open>
  \<open>rise\<close> and \<open>set\<close> walk the consecutive pairs of samples from \<open>i = 1\<close>; the loop
  guard \<open>i < len(o.point)\<close> keeps both reads inside the array. The threshold is the
  source's parameter \<open>el\<close>, written \<open>elv\<close> here because \<open>el\<close> is the field.
\<close>

function rise_loop :: "obj1 list \<Rightarrow> real \<Rightarrow> nat \<Rightarrow> real" where
  "rise_loop pts elv i =
     (if i < length pts then
        (let e1a = el (pts ! (i - 1)); e2a = el (pts ! i) in
         if e1a \<le> elv \<and> e2a > elv then real (i - 1) + (elv - e1a) / (e2a - e1a)
         else rise_loop pts elv (i + 1))
      else - 1)"
  by pat_completeness auto
termination
  by (relation "measure (\<lambda>(pts, elv, i). length pts - i)") auto

definition rise :: "'a obj2 \<Rightarrow> real \<Rightarrow> real" where
  "rise ob elv = rise_loop (point ob) elv 1"

function set_loop :: "obj1 list \<Rightarrow> real \<Rightarrow> nat \<Rightarrow> real" where
  "set_loop pts elv i =
     (if i < length pts then
        (let e1a = el (pts ! (i - 1)); e2a = el (pts ! i) in
         if e1a > elv \<and> e2a \<le> elv then real (i - 1) + (elv - e1a) / (e2a - e1a)
         else set_loop pts elv (i + 1))
      else - 1)"
  by pat_completeness auto
termination
  by (relation "measure (\<lambda>(pts, elv, i). length pts - i)") auto

definition set_obj :: "'a obj2 \<Rightarrow> real \<Rightarrow> real" where
  "set_obj ob elv = set_loop (point ob) elv 1"

declare rise_loop.simps [simp del]

declare set_loop.simps [simp del]

section \<open>The event buffer\<close>

text \<open>
  The flags are bits of a Go \<open>int\<close>. In \<open>src/astro.go\<close> the constant \<open>dark\<close> is the
  thirteenth of its \<open>const\<close> block, so \<open>1 << iota\<close> is \<open>1 << 12\<close>, and \<open>signif\<close>,
  \<open>ptime\<close>, \<open>light\<close> are the next three bits. (In \<open>src/unnamed/part_000\<close> the block
  is three constants shorter and the bits are 9 to 12; \<open>event\<close> is the same text.)
\<close>

definition dark :: "64 word" where
  "dark = push_bit 12 1"

definition signif :: "64 word" where
  "signif = push_bit 13 1"

definition ptime :: "64 word" where
  "ptime = push_bit 14 1"

definition light :: "64 word" where
  "light = push_bit 15 1"

record evt =
  s :: string
  tim :: real
  flag :: "64 word"

datatype error = Bad1 | Bad2 | TooManyEvents

text \<open>
  Go's conversion \<open>int(t)\<close> of a \<open>float64\<close> truncates towards zero. When the truncated
  value does not fit a 64-bit integer the result depends on the implementation; the
  argument \<open>ov\<close> stands for whatever integer the machine yields then.
\<close>

definition int_of_float :: "int \<Rightarrow> real \<Rightarrow> int" where
  "int_of_float ov x =
     (if - (2 ^ 63) \<le> trunc x \<and> trunc x < 2 ^ 63 then trunc x else ov)"

text \<open>
  An indexed read of the sample array: \<open>None\<close> is the run-time panic of an index out
  of range.
\<close>

definition point_at :: "obj1 list \<Rightarrow> int \<Rightarrow> obj1 option" where
  "point_at pts i = (if 0 \<le> i \<and> i < int (length pts) then Some (pts ! nat i) else None)"

text \<open>
  \<open>sunel\<close> interpolates the Sun's elevation at the fractional sample index \<open>t\<close>;
  \<open>pts\<close> is \<open>osun.point\<close>. The result is \<open>None\<close> when a read panics.
\<close>

definition sunel :: "int \<Rightarrow> obj1 list \<Rightarrow> real \<Rightarrow> real option" where
  "sunel ov pts t =
     (let i = int_of_float ov t in
      if i < 0 \<or> i > int npts then Some (- 90)
      else
        (case point_at pts i of
           None \<Rightarrow> None
         | Some p \<Rightarrow>
             (case point_at pts (i + 1) of
                None \<Rightarrow> None
              | Some q \<Rightarrow> Some (el p + (t - of_int i) * (el q - el p)))))"

text \<open>
  \<open>event\<close> takes the buffer \<open>events\<close> and returns the error (\<open>None\<close> is Go's \<open>nil\<close>)
  with the buffer after the call; the outer \<open>option\<close> is \<open>None\<close> when \<open>sunel\<close> panics.
  Go's \<open>&&\<close> evaluates \<open>sunel\<close> only when the flag is set.
\<close>

definition event :: "int \<Rightarrow> obj1 list \<Rightarrow> evt list \<Rightarrow> evt \<Rightarrow> (error option \<times> evt list) option" where
  "event ov pts events e =
     (case (if sint (flag e AND dark) > 0
            then map_option (\<lambda>v. v > - 12) (sunel ov pts (tim e)) else Some False) of
        None \<Rightarrow> None
      | Some True \<Rightarrow> Some (None, events)
      | Some False \<Rightarrow>
          (case (if sint (flag e AND light) > 0
                 then map_option (\<lambda>v. v < 0) (sunel ov pts (tim e)) else Some False) of
             None \<Rightarrow> None
           | Some True \<Rightarrow> Some (None, events)
           | Some False \<Rightarrow>
               if length events \<ge> nevents then Some (Some TooManyEvents, events)
               else Some (None, events @ [e])))"

text \<open>
  A sequence of calls of \<open>event\<close>, each on the buffer the previous one left, whatever
  error the calls return.
\<close>

fun events_after :: "int \<Rightarrow> obj1 list \<Rightarrow> evt list \<Rightarrow> evt list \<Rightarrow> evt list option" where
  "events_after ov pts events [] = Some events"
| "events_after ov pts events (e # es) =
     (case event ov pts events e of
        None \<Rightarrow> None
      | Some (r, events1) \<Rightarrow> events_after ov pts events1 es)"

text \<open>
  The gate of \<open>event\<close> in the words of the specification: an event that requires
  darkness is dropped when the Sun is above -12 degrees, one that requires sunlight
  when the Sun is below 0 degrees.
\<close>

definition gated :: "int \<Rightarrow> obj1 list \<Rightarrow> evt \<Rightarrow> bool" where
  "gated ov pts e =
     (case sunel ov pts (tim e) of
        None \<Rightarrow> False
      | Some v \<Rightarrow> (flag e AND dark \<noteq> 0 \<and> v > - 12) \<or> (flag e AND light \<noteq> 0 \<and> v < 0))"

section \<open>Crossings in the words of the specification\<close>

text \<open>
  The specification describes a rise as the first pair of samples with
  \<open>el[i-1] \<le> el < el[i]\<close>, a set as the first pair with \<open>el[i-1] > el \<ge> el[i]\<close>, and
  the result as the index \<open>i - 1\<close> plus the linear fraction between the two samples.
\<close>

definition upcross :: "obj1 list \<Rightarrow> real \<Rightarrow> nat \<Rightarrow> bool" where
  "upcross pts elv i = (el (pts ! (i - 1)) \<le> elv \<and> elv < el (pts ! i))"

definition downcross :: "obj1 list \<Rightarrow> real \<Rightarrow> nat \<Rightarrow> bool" where
  "downcross pts elv i = (el (pts ! (i - 1)) > elv \<and> elv \<ge> el (pts ! i))"

definition crossing :: "obj1 list \<Rightarrow> real \<Rightarrow> nat \<Rightarrow> real" where
  "crossing pts elv i =
     real (i - 1) + (elv - el (pts ! (i - 1))) / (el (pts ! i) - el (pts ! (i - 1)))"

section \<open>Sample data for the instances\<close>

text \<open>
  Concrete inputs on which the theorems below are instantiated: a sample with a given
  elevation, an event with a given time and flags, and a body whose fourteen
  elevations rise through 0 between the samples 3 and 4 (from -1 to 2) and set
  through 0 between the samples 10 and 11.
\<close>

definition flat :: "real \<Rightarrow> obj1" where
  "flat v = \<lparr>ra = 0, decl2 = 0, semi2 = 0, az = 0, el = v, mag = 0\<rparr>"

definition plain_evt :: "real \<Rightarrow> 64 word \<Rightarrow> evt" where
  "plain_evt t fl = \<lparr>s = ''event at '', tim = t, flag = fl\<rparr>"

definition day_arc :: "real list" where
  "day_arc = [- 5, - 4, - 3, - 1, 2, 3, 4, 5, 6, 5, 4, - 1, - 2, - 3]"

definition arc_body :: "unit obj2" where
  "arc_body = \<lparr>name = ''sun'', fname = ''The sun'', f = (\<lambda>g. g), point = map flat day_arc\<rparr>"

text \<open>
  The globals of a sample for which \<open>geo\<close> is evaluated below: an object on the
  celestial equator at right ascension \<open>-pi/2\<close> (18 hours), infinitely far
  (no parallax), seen from longitude 0 on the equator at sidereal time 0.
\<close>

definition west_point :: genv where
  "west_point = \<lparr>ra = 0, decl2 = 0, semi2 = 0, az = 0, el = 0, mag = 0,
     day = 0, gst = 0, alpha = - (pi / 2), delta = 0, wlong = 0, erad = 1, glat = 0,
     hp = 0, semi = 0, nlat = 0, lha = 0, decl = 0\<rparr>"

section \<open>Occultations\<close>

text \<open>
  \<open>occ\<close> holds the five contact times with the elevations at them; \<open>occ1\<close> and
  \<open>occ2\<close> hold, for each of the two bodies, the coefficients \<open>del0\<close>, \<open>del1\<close>, \<open>del2\<close>
  of a quadratic through three samples and the point \<open>act\<close> last evaluated.
\<close>

record obj3 =
  t1 :: real
  e1 :: real
  t2 :: real
  e2 :: real
  t3 :: real
  e3 :: real
  t4 :: real
  e4 :: real
  t5 :: real
  e5 :: real

record occt =
  act :: obj1
  del0 :: obj1
  del1 :: obj1
  del2 :: obj1

text \<open>The package-level variables \<open>occult\<close> writes, with those of the ephemeris.\<close>

record 'a ostate =
  occ :: obj3
  occ1 :: occt
  occ2 :: occt
  env :: "'a genv_scheme"

text \<open>
  \<open>set3pt\<close> reads the samples \<open>i\<close>, \<open>i + 1\<close>, \<open>i + 2\<close> of a body; it is given the
  sample array of the body. Its callers pass \<open>i \<le> 11\<close>, so the reads are in range.
\<close>

definition set3pt :: "obj1 list \<Rightarrow> nat \<Rightarrow> occt \<Rightarrow> occt" where
  "set3pt pts i oc =
     (let p1 = pts ! i; p2 = pts ! (i + 1); p3 = pts ! (i + 2) in
      oc\<lparr>del0 := (del0 oc)\<lparr>ra := ra p1, decl2 := decl2 p1, semi2 := semi2 p1, el := el p1\<rparr>,
         del1 := (del1 oc)\<lparr>ra := pinorm (ra p2 - ra p1),
                             decl2 := pinorm (decl2 p2 - decl2 p1),
                             semi2 := semi2 p2 - semi2 p1,
                             el := el p2 - el p1\<rparr>,
         del2 := (del2 oc)\<lparr>ra := pinorm (ra p1 + ra p3 - 2 * ra p2) / 2,
                             decl2 := pinorm (decl2 p1 + decl2 p3 - 2 * decl2 p2) / 2,
                             semi2 := (semi2 p1 + semi2 p3 - 2 * semi2 p2) / 2,
                             el := (el p1 + el p3 - 2 * el p2) / 2\<rparr>\<rparr>)"

definition setpt :: "occt \<Rightarrow> real \<Rightarrow> occt" where
  "setpt oc x =
     (let y = x * (x - 1) in
      oc\<lparr>act := (act oc)\<lparr>ra := ra (del0 oc) + x * ra (del1 oc) + y * ra (del2 oc),
                           decl2 := decl2 (del0 oc) + x * decl2 (del1 oc) + y * decl2 (del2 oc),
                           semi2 := semi2 (del0 oc) + x * semi2 (del1 oc) + y * semi2 (del2 oc),
                           el := el (del0 oc) + x * el (del1 oc) + y * el (del2 oc)\<rparr>\<rparr>)"

text \<open>
  The coarse loop over the samples, from \<open>i = 2\<close>. The result is the flag \<open>ok\<close> with
  the values of \<open>i\<close>, \<open>d1\<close>, \<open>d2\<close>, \<open>d3\<close> when the loop is left.
\<close>

function coarse_loop ::
  "obj1 list \<Rightarrow> obj1 list \<Rightarrow> nat \<Rightarrow> real \<Rightarrow> real \<Rightarrow> real \<Rightarrow> bool \<times> nat \<times> real \<times> real \<times> real" where
  "coarse_loop p1 p2 i d1 d2 d3 =
     (if i < length p1 then
        (let d1a = dist_obj (p1 ! (i - 2)) (p2 ! (i - 2));
             d2a = dist_obj (p1 ! (i - 1)) (p2 ! (i - 1));
             d3a = dist_obj (p1 ! i) (p2 ! i)
         in if d2a \<le> d1a \<and> d2a \<le> d3a then (True, i, d1a, d2a, d3a)
            else coarse_loop p1 p2 (i + 1) d1a d2a d3a)
      else (False, i, d1, d2, d3))"
  by pat_completeness auto
termination
  by (relation "measure (\<lambda>(p1, p2, i, d1, d2, d3). length p1 - i)") auto

declare coarse_loop.simps [simp del]

text \<open>
  The medium and the fine loop have the same body: evaluate both quadratics at \<open>x\<close>,
  shift \<open>d2, d3\<close> into \<open>d1, d2\<close>, take the new separation as \<open>d3\<close>, and leave with
  \<open>ok\<close> once \<open>i \<ge> 2\<close> and \<open>d2\<close> is not above its neighbours; otherwise advance \<open>x\<close> by
  the step. \<open>scan_loop\<close> is that loop with its number of iterations \<open>cnt\<close> and its
  step as arguments; the result is \<open>ok\<close> with \<open>i\<close>, \<open>x\<close>, the three separations and
  the two records when the loop is left.
\<close>

function scan_loop ::
  "nat \<Rightarrow> real \<Rightarrow> nat \<Rightarrow> real \<Rightarrow> real \<Rightarrow> real \<Rightarrow> real \<Rightarrow> occt \<Rightarrow> occt
     \<Rightarrow> bool \<times> nat \<times> real \<times> real \<times> real \<times> real \<times> occt \<times> occt" where
  "scan_loop cnt step i x d1 d2 d3 oc1 oc2 =
     (if i < cnt then
        (let oc1a = setpt oc1 x;
             oc2a = setpt oc2 x;
             d1a = d2;
             d2a = d3;
             d3a = dist_obj (act oc1a) (act oc2a)
         in if i \<ge> 2 \<and> d2a \<le> d1a \<and> d2a \<le> d3a then (True, i, x, d1a, d2a, d3a, oc1a, oc2a)
            else scan_loop cnt step (i + 1) (x + step) d1a d2a d3a oc1a oc2a)
      else (False, i, x, d1, d2, d3, oc1, oc2))"
  by pat_completeness auto
termination
  by (relation "measure (\<lambda>(cnt, step, i, x, d1, d2, d3, oc1, oc2). cnt - i)") auto

declare scan_loop.simps [simp del]

text \<open>
  The three true positions around the refined time. \<open>setime\<close> sets the ephemeris for
  a Julian day; it is the program's function of that name, taken as an argument, as
  are the bodies' own functions \<open>f\<close>. \<open>xo1\<close> and \<open>xo2\<close> are the sample arrays of the
  two local bodies.
\<close>

function resample_loop ::
  "(real \<Rightarrow> 'a genv_scheme \<Rightarrow> 'a genv_scheme) \<Rightarrow> 'a obj2 \<Rightarrow> 'a obj2 \<Rightarrow> real \<Rightarrow> real \<Rightarrow>
     nat \<Rightarrow> real \<Rightarrow> obj1 list \<Rightarrow> obj1 list \<Rightarrow> 'a genv_scheme
     \<Rightarrow> real \<times> obj1 list \<times> obj1 list \<times> 'a genv_scheme" where
  "resample_loop setime o1 o2 di dx i x xo1 xo2 g =
     (if i < 3 then
        (let g1 = setime (day g + deld * (di + x)) g;
             g2 = f o1 g1;
             xo1a = xo1[i := setobj g2];
             g3 = f o2 g2;
             xo2a = xo2[i := setobj g3]
         in resample_loop setime o1 o2 di dx (i + 1) (x + 2 * dx) xo1a xo2a g3)
      else (x, xo1, xo2, g))"
  by pat_completeness auto
termination
  by (relation "measure (\<lambda>(setime, o1, o2, di, dx, i, x, xo1, xo2, g). 3 - i)") auto

declare resample_loop.simps [simp del]

text \<open>
  The two loops that look for the contacts after and before the minimum have no
  bound: they are left only when the separation exceeds \<open>d4\<close>. They are partial
  functions, \<open>None\<close> when the loop does not end. The result is the separation \<open>d2\<close>,
  the two records and \<open>occ\<close> when the loop is left.
\<close>

partial_function (option) contact_fwd ::
  "int \<Rightarrow> real \<Rightarrow> real \<Rightarrow> real \<Rightarrow> real \<Rightarrow> int \<Rightarrow> real \<Rightarrow> real \<Rightarrow> occt \<Rightarrow> occt \<Rightarrow> obj3
     \<Rightarrow> (real \<times> occt \<times> occt \<times> obj3) option" where
  "contact_fwd i1 d3 d4 di dx i x d2 oc1 oc2 oc =
     (let oc1a = setpt oc1 x;
          oc2a = setpt oc2 x;
          d1 = d2;
          d2a = dist_obj (act oc1a) (act oc2a)
      in if i \<noteq> i1 then
           (let oca = (if d1 \<le> d3 \<and> d2a > d3
                       then oc\<lparr>t4 := di + (of_int i - 0.5) * dx, e4 := el (act oc1a)\<rparr> else oc)
            in if d2a > d4 then
                 Some (d2a, oc1a, oc2a,
                   (if d1 \<le> d4 then oca\<lparr>t5 := di + (of_int i - 0.5) * dx, e5 := el (act oc1a)\<rparr>
                    else oca))
               else contact_fwd i1 d3 d4 di dx (i + 1) (x + 1 / 120) d2a oc1a oc2a oca)
         else contact_fwd i1 d3 d4 di dx (i + 1) (x + 1 / 120) d2a oc1a oc2a oc)"

partial_function (option) contact_bwd ::
  "int \<Rightarrow> real \<Rightarrow> real \<Rightarrow> real \<Rightarrow> real \<Rightarrow> int \<Rightarrow> real \<Rightarrow> real \<Rightarrow> occt \<Rightarrow> occt \<Rightarrow> obj3
     \<Rightarrow> (real \<times> occt \<times> occt \<times> obj3) option" where
  "contact_bwd i1 d3 d4 di dx i x d2 oc1 oc2 oc =
     (let oc1a = setpt oc1 x;
          oc2a = setpt oc2 x;
          d1 = d2;
          d2a = dist_obj (act oc1a) (act oc2a)
      in if i \<noteq> i1 then
           (let oca = (if d1 \<le> d3 \<and> d2a > d3
                       then oc\<lparr>t2 := di + (of_int i - 0.5) * dx, e2 := el (act oc1a)\<rparr> else oc)
            in if d2a > d4 then
                 Some (d2a, oc1a, oc2a,
                   (if d1 \<le> d4 then oca\<lparr>t1 := di + (of_int i - 0.5) * dx, e1 := el (act oc1a)\<rparr>
                    else oca))
               else contact_bwd i1 d3 d4 di dx (i - 1) (x - 1 / 120) d2a oc1a oc2a oca)
         else contact_bwd i1 d3 d4 di dx (i - 1) (x - 1 / 120) d2a oc1a oc2a oc)"

text \<open>The zero value of a sample, and of the sample array of a local body.\<close>

definition zero_obj1 :: obj1 where
  "zero_obj1 = \<lparr>ra = 0, decl2 = 0, semi2 = 0, az = 0, el = 0, mag = 0\<rparr>"

definition zero_points :: "obj1 list" where
  "zero_points = replicate (npts + 2) zero_obj1"

text \<open>
  \<open>occult\<close> is one long function; here its text is cut at the three places where a
  search has succeeded, and read from the end. \<open>occult_contacts\<close> is the last part,
  from \<open>i1 := i - 1\<close> on: the time of the minimum and the two contact loops.
  The result is \<open>None\<close> when a contact loop does not end, and otherwise the returned
  error (\<open>None\<close> is \<open>nil\<close>) with the variables after the call.
\<close>

definition occult_contacts ::
  "'a ostate \<Rightarrow> real \<Rightarrow> real \<Rightarrow> nat \<Rightarrow> real \<Rightarrow> real \<Rightarrow> occt \<Rightarrow> occt
     \<Rightarrow> (error option \<times> 'a ostate) option" where
  "occult_contacts st di dx i x d2 h1 h2 =
     (let i1 = int i - 1;
          x1 = x - 1 / 120;
          oc3 = (occ st)\<lparr>t3 := di + of_int i1 * dx, e3 := el (act h1)\<rparr>;
          d3 = \<bar>semi2 (act h1) - semi2 (act h2)\<bar>;
          d4 = semi2 (act h1) + semi2 (act h2)
      in case contact_fwd i1 d3 d4 di dx i1 x1 d2 h1 h2 oc3 of
        None \<Rightarrow> None
      | Some (d2f, q1, q2, oc4) \<Rightarrow>
          (case contact_bwd i1 d3 d4 di dx i1 x1 d2f q1 q2 oc4 of
             None \<Rightarrow> None
           | Some (d2b, m1, m2, oc5) \<Rightarrow> Some (None, st\<lparr>occ := oc5, occ1 := m1, occ2 := m2\<rparr>)))"

text \<open>
  \<open>occult_fine\<close> is the part from \<open>di += x - 3*dx\<close> on: the true positions at three
  times, the fine loop, the error "bad 2" and the test against the semidiameters.
\<close>

definition occult_fine ::
  "(real \<Rightarrow> 'a genv_scheme \<Rightarrow> 'a genv_scheme) \<Rightarrow> 'a obj2 \<Rightarrow> 'a obj2 \<Rightarrow> 'a ostate \<Rightarrow>
     real \<Rightarrow> real \<Rightarrow> real \<Rightarrow> real \<Rightarrow> real \<Rightarrow> real \<Rightarrow> occt \<Rightarrow> occt
     \<Rightarrow> (error option \<times> 'a ostate) option" where
  "occult_fine setime o1 o2 st di x dx d1 d2 d3 b1 b2 =
     (let dia = di + (x - 3 * dx) in
      case resample_loop setime o1 o2 dia dx 0 0 zero_points zero_points (env st) of
        (xa, xo1, xo2, g) \<Rightarrow>
          (let dxa = dx / 60;
               c1 = set3pt xo1 0 b1;
               c2 = set3pt xo2 0 b2
           in case scan_loop 241 (1 / 120) 0 0 d1 d2 d3 c1 c2 of
             (ok, i, xb, d1a, d2a, d3a, h1, h2) \<Rightarrow>
               if \<not> ok then Some (Some Bad2, st\<lparr>occ1 := h1, occ2 := h2, env := g\<rparr>)
               else if d2a > semi2 (act h1) + semi2 (act h2)
               then Some (None, st\<lparr>occ1 := h1, occ2 := h2, env := g\<rparr>)
               else occult_contacts (st\<lparr>env := g\<rparr>) dia dxa i xb d2a h1 h2))"

text \<open>
  \<open>occult_medium\<close> is the part from \<open>n := 2880 * per / npts\<close> on: the quadratics
  through the three samples around the coarse minimum, the medium loop, the error
  "bad 1" and the test against the semidiameters plus 50 seconds of arc.
\<close>

definition occult_medium ::
  "(real \<Rightarrow> 'a genv_scheme \<Rightarrow> 'a genv_scheme) \<Rightarrow> 'a obj2 \<Rightarrow> 'a obj2 \<Rightarrow> 'a ostate \<Rightarrow>
     nat \<Rightarrow> real \<Rightarrow> real \<Rightarrow> real \<Rightarrow> (error option \<times> 'a ostate) option" where
  "occult_medium setime o1 o2 st i d1 d2 d3 =
     (let n = 2880 * per / real npts;
          ia = i - 2;
          a1 = set3pt (point o1) ia (occ1 st);
          a2 = set3pt (point o2) ia (occ2 st);
          di = real ia;
          dx = 2 / n
      in case scan_loop (nat (trunc (n + 1))) dx 0 0 d1 d2 d3 a1 a2 of
        (ok, ib, x, d1a, d2a, d3a, b1, b2) \<Rightarrow>
          if \<not> ok then Some (Some Bad1, st\<lparr>occ1 := b1, occ2 := b2\<rparr>)
          else if d2a > semi2 (act b1) + semi2 (act b2) + 50
          then Some (None, st\<lparr>occ1 := b1, occ2 := b2\<rparr>)
          else occult_fine setime o1 o2 st di x dx d1a d2a d3a b1 b2)"

text \<open>
  \<open>occult\<close> itself: the five contact times are set to -100, the coarse loop runs
  from \<open>i = 2\<close> with \<open>d1\<close>, \<open>d2\<close>, \<open>d3\<close> zero, and without a coarse minimum the
  function returns \<open>nil\<close>.
\<close>

definition occult ::
  "(real \<Rightarrow> 'a genv_scheme \<Rightarrow> 'a genv_scheme) \<Rightarrow> 'a obj2 \<Rightarrow> 'a obj2 \<Rightarrow> 'a ostate
     \<Rightarrow> (error option \<times> 'a ostate) option" where
  "occult setime o1 o2 st =
     (let st0 = st\<lparr>occ := (occ st)\<lparr>t1 := - 100, t2 := - 100, t3 := - 100, t4 := - 100, t5 := - 100\<rparr>\<rparr>
      in case coarse_loop (point o1) (point o2) 2 0 0 0 of
        (ok, i, d1, d2, d3) \<Rightarrow>
          if \<not> ok then Some (None, st0) else occult_medium setime o1 o2 st0 i d1 d2 d3)"

section \<open>The passes of \<open>occult\<close> in the words of the specification\<close>

text \<open>
  The specification describes \<open>occult\<close> by its passes: a coarse pass over the
  samples, a medium pass over the quadratic through three of them, a fine pass after
  the bodies are sampled again, and the contact loops. The definitions below follow
  those words; the theorems compare them with \<open>occult\<close> as translated above.

  \<open>dseq\<close> is the separation at sample \<open>k\<close>, \<open>sep\<close> the separation of the two
  interpolants at sub-step \<open>k\<close>. An index \<open>k\<close> is a 3-point minimum of \<open>d\<close> when
  \<open>d (k - 1) \<ge> d k \<le> d (k + 1)\<close>; \<open>first_min3 d n\<close> is the first such index among
  \<open>1, ..., n - 1\<close>.
\<close>

definition dseq :: "obj1 list \<Rightarrow> obj1 list \<Rightarrow> nat \<Rightarrow> real" where
  "dseq p1 p2 k = dist_obj (p1 ! k) (p2 ! k)"

definition sep :: "occt \<Rightarrow> occt \<Rightarrow> real \<Rightarrow> nat \<Rightarrow> real" where
  "sep a b step k = dist_obj (act (setpt a (real k * step))) (act (setpt b (real k * step)))"

definition sepx :: "occt \<Rightarrow> occt \<Rightarrow> real \<Rightarrow> real" where
  "sepx a b x = dist_obj (act (setpt a x)) (act (setpt b x))"

definition min3 :: "(nat \<Rightarrow> real) \<Rightarrow> nat \<Rightarrow> bool" where
  "min3 d k = (d k \<le> d (k - 1) \<and> d k \<le> d (k + 1))"

definition first_min3 :: "(nat \<Rightarrow> real) \<Rightarrow> nat \<Rightarrow> nat option" where
  "first_min3 d n = find (min3 d) [1..<n]"

text \<open>
  The coarse pass looks at the 14 samples; the minimum found is the middle one of the
  samples \<open>k0 - 1\<close>, \<open>k0\<close>, \<open>k0 + 1\<close>, through which \<open>set3pt\<close> puts the quadratic.
  The medium pass evaluates it at 241 sub-steps of 1/120 (\<open>x\<close> from 0 to 2), so its
  interior sub-steps are 1 to 239. When the loop stops at the minimum \<open>k\<close> it has
  evaluated sub-step \<open>k + 1\<close>, whose abscissa is \<open>scan_x k\<close>: the semidiameters
  compared with the minimum separation are those of that point.
\<close>

definition coarse_k :: "'a obj2 \<Rightarrow> 'a obj2 \<Rightarrow> nat option" where
  "coarse_k o1 o2 = first_min3 (dseq (point o1) (point o2)) (npts + 1)"

definition medium_rec :: "'a obj2 \<Rightarrow> occt \<Rightarrow> nat \<Rightarrow> occt" where
  "medium_rec ob oc k0 = set3pt (point ob) (k0 - 1) oc"

definition scan_k :: "occt \<Rightarrow> occt \<Rightarrow> nat option" where
  "scan_k a b = first_min3 (sep a b (1 / 120)) 240"

definition scan_x :: "nat \<Rightarrow> real" where
  "scan_x k = real (k + 1) * (1 / 120)"

definition medium_far :: "occt \<Rightarrow> occt \<Rightarrow> nat \<Rightarrow> bool" where
  "medium_far a b k =
     (sep a b (1 / 120) k > semi2 (act (setpt a (scan_x k))) + semi2 (act (setpt b (scan_x k))) + 50)"

definition fine_far :: "occt \<Rightarrow> occt \<Rightarrow> nat \<Rightarrow> bool" where
  "fine_far a b k =
     (sep a b (1 / 120) k > semi2 (act (setpt a (scan_x k))) + semi2 (act (setpt b (scan_x k))))"

definition medium_k :: "'a obj2 \<Rightarrow> 'a obj2 \<Rightarrow> 'a ostate \<Rightarrow> nat \<Rightarrow> nat option" where
  "medium_k o1 o2 st k0 = scan_k (medium_rec o1 (occ1 st) k0) (medium_rec o2 (occ2 st) k0)"

definition margin_far :: "'a obj2 \<Rightarrow> 'a obj2 \<Rightarrow> 'a ostate \<Rightarrow> nat \<Rightarrow> nat \<Rightarrow> bool" where
  "margin_far o1 o2 st k0 k1 =
     medium_far (medium_rec o1 (occ1 st) k0) (medium_rec o2 (occ2 st) k0) k1"

text \<open>
  The fine pass: the bodies are sampled again at three instants from
  \<open>refined_di\<close> on, \<open>set3pt\<close> puts the quadratics through the new samples, and the
  scan is repeated.
\<close>

definition refined_di :: "nat \<Rightarrow> nat \<Rightarrow> real" where
  "refined_di k0 k1 = real (k0 - 1) + (scan_x k1 - 3 * (1 / 120))"

definition fine_recs ::
  "(real \<Rightarrow> 'a genv_scheme \<Rightarrow> 'a genv_scheme) \<Rightarrow> 'a obj2 \<Rightarrow> 'a obj2 \<Rightarrow> 'a ostate \<Rightarrow> nat \<Rightarrow> nat
     \<Rightarrow> occt \<times> occt" where
  "fine_recs setime o1 o2 st k0 k1 =
     (case resample_loop setime o1 o2 (refined_di k0 k1) (1 / 120) 0 0 zero_points zero_points (env st) of
        (xa, xo1, xo2, g) \<Rightarrow>
          (set3pt xo1 0 (setpt (medium_rec o1 (occ1 st) k0) (scan_x k1)),
           set3pt xo2 0 (setpt (medium_rec o2 (occ2 st) k0) (scan_x k1))))"

definition fine_k ::
  "(real \<Rightarrow> 'a genv_scheme \<Rightarrow> 'a genv_scheme) \<Rightarrow> 'a obj2 \<Rightarrow> 'a obj2 \<Rightarrow> 'a ostate \<Rightarrow> nat \<Rightarrow> nat
     \<Rightarrow> nat option" where
  "fine_k setime o1 o2 st k0 k1 =
     (case fine_recs setime o1 o2 st k0 k1 of (c1, c2) \<Rightarrow> scan_k c1 c2)"

definition discs_apart ::
  "(real \<Rightarrow> 'a genv_scheme \<Rightarrow> 'a genv_scheme) \<Rightarrow> 'a obj2 \<Rightarrow> 'a obj2 \<Rightarrow> 'a ostate \<Rightarrow> nat \<Rightarrow> nat
     \<Rightarrow> nat \<Rightarrow> bool" where
  "discs_apart setime o1 o2 st k0 k1 k2 =
     (case fine_recs setime o1 o2 st k0 k1 of (c1, c2) \<Rightarrow> fine_far c1 c2 k2)"

text \<open>
  The contact loops walk forwards and backwards from the fine minimum until the
  separation exceeds the sum of the semidiameters; \<open>leaves_discs\<close> says that this
  happens \<open>n + 1\<close> steps after and \<open>m + 1\<close> steps before the point where they start.
\<close>

definition leaves_discs ::
  "(real \<Rightarrow> 'a genv_scheme \<Rightarrow> 'a genv_scheme) \<Rightarrow> 'a obj2 \<Rightarrow> 'a obj2 \<Rightarrow> 'a ostate \<Rightarrow> nat \<Rightarrow> nat
     \<Rightarrow> nat \<Rightarrow> nat \<Rightarrow> nat \<Rightarrow> bool" where
  "leaves_discs setime o1 o2 st k0 k1 k2 n m =
     (case fine_recs setime o1 o2 st k0 k1 of
        (c1, c2) \<Rightarrow>
          semi2 (act (setpt c1 (scan_x k2))) + semi2 (act (setpt c2 (scan_x k2)))
            < sepx c1 c2 (scan_x k2 - 1 / 120 + real (Suc n) / 120) \<and>
          semi2 (act (setpt c1 (scan_x k2))) + semi2 (act (setpt c2 (scan_x k2)))
            < sepx c1 c2 (scan_x k2 - 1 / 120 - real (Suc m) / 120))"

text \<open>
  The state with which \<open>occult\<close> starts, the five sentinels, and the six ways
  through the function.
\<close>

definition start_state :: "'a ostate \<Rightarrow> 'a ostate" where
  "start_state st =
     st\<lparr>occ := (occ st)\<lparr>t1 := - 100, t2 := - 100, t3 := - 100, t4 := - 100, t5 := - 100\<rparr>\<rparr>"

definition no_contacts :: "obj3 \<Rightarrow> bool" where
  "no_contacts oc = (t1 oc = - 100 \<and> t2 oc = - 100 \<and> t3 oc = - 100 \<and> t4 oc = - 100 \<and> t5 oc = - 100)"

datatype outcome = NoCoarse | NoMedium | Margin | NoFine | Apart | Contact

definition outcome_of ::
  "(real \<Rightarrow> 'a genv_scheme \<Rightarrow> 'a genv_scheme) \<Rightarrow> 'a obj2 \<Rightarrow> 'a obj2 \<Rightarrow> 'a ostate \<Rightarrow> outcome" where
  "outcome_of setime o1 o2 st =
     (case coarse_k o1 o2 of
        None \<Rightarrow> NoCoarse
      | Some k0 \<Rightarrow>
          (case medium_k o1 o2 st k0 of
             None \<Rightarrow> NoMedium
           | Some k1 \<Rightarrow>
               if margin_far o1 o2 st k0 k1 then Margin
               else
                 (case fine_k setime o1 o2 st k0 k1 of
                    None \<Rightarrow> NoFine
                  | Some k2 \<Rightarrow>
                      if discs_apart setime o1 o2 st k0 k1 k2 then Apart else Contact)))"

section \<open>Sample bodies for the instances\<close>

text \<open>
  Bodies on the equator with semidiameter zero: \<open>still r\<close> stays at right ascension
  \<open>r\<close>; \<open>receding\<close> has samples that move away from 0 by 1/100 a sample;
  \<open>drifting\<close> has equal samples, and its ephemeris puts it at \<open>gst + 1/100\<close>, where
  \<open>clock\<close>, in the place of \<open>setime\<close>, stores the day in \<open>gst\<close>. \<open>rest\<close> is the zero
  state. \<open>track a r v\<close> says that the interpolant \<open>a\<close> moves along the equator from
  \<open>r\<close> with speed \<open>v\<close>.
\<close>

definition at_ra :: "real \<Rightarrow> obj1" where
  "at_ra r = \<lparr>ra = r, decl2 = 0, semi2 = 0, az = 0, el = 0, mag = 0\<rparr>"

definition still :: "real \<Rightarrow> unit obj2" where
  "still r = \<lparr>name = ''star'', fname = ''Star'',
     f = (\<lambda>g. g\<lparr>ra := r, decl2 := 0, semi2 := 0\<rparr>), point = replicate 14 (at_ra r)\<rparr>"

definition drifting :: "unit obj2" where
  "drifting = \<lparr>name = ''moon'', fname = ''The moon'',
     f = (\<lambda>g. g\<lparr>ra := gst g + 1 / 100, decl2 := 0, semi2 := 0\<rparr>), point = zero_points\<rparr>"

definition receding :: "unit obj2" where
  "receding = \<lparr>name = ''moon'', fname = ''The moon'',
     f = (\<lambda>g. g\<lparr>ra := gst g + 1 / 100, decl2 := 0, semi2 := 0\<rparr>),
     point = map (\<lambda>k. at_ra (real (k + 1) / 100)) [0..<14]\<rparr>"

definition clock :: "real \<Rightarrow> genv \<Rightarrow> genv" where
  "clock d g = g\<lparr>gst := d\<rparr>"

definition zero_occt :: occt where
  "zero_occt = \<lparr>act = zero_obj1, del0 = zero_obj1, del1 = zero_obj1, del2 = zero_obj1\<rparr>"

definition rest :: "unit ostate" where
  "rest = \<lparr>occ = \<lparr>t1 = 0, e1 = 0, t2 = 0, e2 = 0, t3 = 0, e3 = 0, t4 = 0, e4 = 0, t5 = 0, e5 = 0\<rparr>,
     occ1 = zero_occt, occ2 = zero_occt,
     env = \<lparr>ra = 0, decl2 = 0, semi2 = 0, az = 0, el = 0, mag = 0, day = 0, gst = 0, alpha = 0,
       delta = 0, wlong = 0, erad = 0, glat = 0, hp = 0, semi = 0, nlat = 0, lha = 0, decl = 0\<rparr>\<rparr>"

definition track :: "occt \<Rightarrow> real \<Rightarrow> real \<Rightarrow> bool" where
  "track a r v =
     (ra (del0 a) = r \<and> decl2 (del0 a) = 0 \<and> semi2 (del0 a) = 0 \<and>
      ra (del1 a) = v \<and> decl2 (del1 a) = 0 \<and> semi2 (del1 a) = 0 \<and>
      ra (del2 a) = 0 \<and> decl2 (del2 a) = 0 \<and> semi2 (del2 a) = 0)"

section \<open>Theorems\<close>

subsection \<open>Angle normalisation\<close>

lemma pinorm_up_ge: "- pi \<le> pinorm_up a"
proof (induction a rule: pinorm_up.induct)
  case (1 a)
  then show ?case
    by (cases "a < - pi") (simp_all add: pinorm_up.simps [of a])
qed

lemma pinorm_up_le: "pinorm_up a \<le> max a pi"
proof (induction a rule: pinorm_up.induct)
  case (1 a)
  show ?case
  proof (cases "a < - pi")
    case True
    then have "pinorm_up (a + pipi) \<le> max (a + pipi) pi"
      using "1" by simp
    moreover have "a + pipi < pi"
      using True by (simp add: pipi_def)
    ultimately show ?thesis
      using True by (simp add: pinorm_up.simps [of a])
  next
    case False
    then show ?thesis by (simp add: pinorm_up.simps [of a])
  qed
qed

lemma pinorm_down_le: "pinorm_down a \<le> pi"
proof (induction a rule: pinorm_down.induct)
  case (1 a)
  then show ?case
    by (cases "a > pi") (simp_all add: pinorm_down.simps [of a])
qed

lemma pinorm_down_ge: "- pi \<le> a \<Longrightarrow> - pi \<le> pinorm_down a"
proof (induction a rule: pinorm_down.induct)
  case (1 a)
  show ?case
  proof (cases "a > pi")
    case True
    then have "- pi \<le> a - pipi"
      by (simp add: pipi_def)
    then show ?thesis
      using "1.IH" True by (simp add: pinorm_down.simps [of a])
  next
    case False
    then show ?thesis using "1.prems" by (simp add: pinorm_down.simps [of a])
  qed
qed

lemma pinorm_range: "- pi \<le> pinorm a \<and> pinorm a \<le> pi"
  by (simp add: pinorm_def pinorm_down_le pinorm_down_ge pinorm_up_ge)

lemma pinorm_id: "- pi \<le> a \<Longrightarrow> a \<le> pi \<Longrightarrow> pinorm a = a"
  by (simp add: pinorm_def pinorm_up.simps [of a] pinorm_down.simps [of a])

lemma fmod_nonneg_range:
  assumes "0 \<le> x" "0 < y"
  shows "0 \<le> fmod x y \<and> fmod x y < y"
proof -
  have q: "0 \<le> x / y" using assms by simp
  have lo: "of_int \<lfloor>x / y\<rfloor> * y \<le> x"
    using floor_divide_lower [OF assms(2)] .
  have hi: "x < (of_int \<lfloor>x / y\<rfloor> + 1) * y"
    using floor_divide_upper [OF assms(2)] .
  show ?thesis
    using q lo hi by (simp add: fmod_def trunc_def algebra_simps)
qed

lemma piNorm_range: "- pi \<le> a \<Longrightarrow> - pi \<le> piNorm a \<and> piNorm a < pi"
  using fmod_nonneg_range [of "a + pi" "2 * pi"] by (simp add: piNorm_def)

lemma ceiling_minus_half: "\<lceil>- (1 / 2) :: real\<rceil> = 0"
  by (rule ceiling_unique) simp_all

subsection \<open>Angle normalisation in \<open>float64\<close>\<close>

lemma rne_lower: "x - 1 / 2 \<le> of_int (rne x)"
  unfolding rne_def Let_def by (auto; linarith)

lemma rne_upper: "of_int (rne x) \<le> x + 1 / 2"
  unfolding rne_def Let_def by (auto; linarith)







lemma expo_eq:
  assumes "2 powr of_int k \<le> \<bar>x\<bar>" "\<bar>x\<bar> < 2 powr of_int (k + 1)" "- 1022 \<le> k"
  shows "expo x = k"
proof -
  have p: "0 < \<bar>x\<bar>"
    using assms(1) powr_gt_zero [of 2 "of_int k"] by linarith
  have "\<lfloor>log 2 \<bar>x\<bar>\<rfloor> = k"
    using floor_log_eq_powr_iff [OF p, of 2 k] assms(1,2) by simp
  then show ?thesis
    using assms(3) by (simp add: expo_def)
qed




lemma pi64_bounds: "3 < pi64" "pi64 < 4" "6 < pipi64" "pipi64 < 8"
  by (simp_all add: pi64_def pipi64_def)











lemma pinorm_down64_stuck:
  assumes "a > pi64" "round64 (a - pipi64) = a"
  shows "pinorm_down64 a = None"
proof -
  have "pinorm_down64 x = Some y \<Longrightarrow> x \<noteq> a" for x y
  proof (induction rule: pinorm_down64.raw_induct [rotated 1, consumes 1, case_names step])
    case (step f x y)
    show ?case
    proof
      assume "x = a"
      then have "f a = Some y"
        using step(2) assms by simp
      then show False
        using step(1) by blast
    qed
  qed
  then show ?thesis
    by (cases "pinorm_down64 a") auto
qed

lemma pinorm_up64_stuck:
  assumes "a < - pi64" "round64 (a + pipi64) = a"
  shows "pinorm_up64 a = None"
proof -
  have "pinorm_up64 x = Some y \<Longrightarrow> x \<noteq> a" for x y
  proof (induction rule: pinorm_up64.raw_induct [rotated 1, consumes 1, case_names step])
    case (step f x y)
    show ?case
    proof
      assume "x = a"
      then have "f a = Some y"
        using step(2) assms by simp
      then show False
        using step(1) by blast
    qed
  qed
  then show ?thesis
    by (cases "pinorm_up64 a") auto
qed

lemma rne_eq:
  assumes "of_int n - 1 / 2 < x" "x < of_int n + 1 / 2"
  shows "rne x = n"
proof -
  have "real_of_int (rne x) < of_int n + 1" "of_int n - 1 < real_of_int (rne x)"
    using rne_lower [of x] rne_upper [of x] assms by linarith+
  then have "real_of_int (rne x) < of_int (n + 1)" "of_int (n - 1) < real_of_int (rne x)"
    by simp_all
  then have "rne x < n + 1" "n - 1 < rne x"
    by (simp_all only: of_int_less_iff)
  then show ?thesis
    by simp
qed





lemma round64_absorbs: "round64 (10 ^ 17 - pipi64) = 10 ^ 17"
proof -
  let ?x = "10 ^ 17 - pipi64 :: real"
  have b: "10 ^ 17 - 8 < ?x" "?x < 10 ^ 17"
    using pi64_bounds by simp_all
  have "2 powr real_of_int 56 \<le> \<bar>?x\<bar>" "\<bar>?x\<bar> < 2 powr real_of_int (56 + 1)"
    using b by (simp_all add: powr_int)
  then have e: "expo ?x = 56"
    by (intro expo_eq) simp_all
  have "(2::real) powr of_int (56 - 52) = 16"
    by (simp add: powr_int)
  then have u: "ulp64 ?x = 16"
    unfolding ulp64_def e .
  have r: "rne (?x / 16) = 6250000000000000"
    using b by (intro rne_eq) simp_all
  have nz: "?x \<noteq> 0"
    using b by simp
  show ?thesis
    unfolding round64_def u r using nz by simp
qed

lemma pinorm64_huge: "pinorm64 (10 ^ 17) = None"
proof -
  have 1: "pinorm_up64 (10 ^ 17) = Some (10 ^ 17)"
    using pi64_bounds by (subst pinorm_up64.simps) simp
  have 2: "pinorm_down64 (10 ^ 17) = None"
    using pi64_bounds by (intro pinorm_down64_stuck round64_absorbs) simp
  show ?thesis
    unfolding pinorm64_def 1 option.case 2 ..
qed

lemma piNorm_two_pi: "piNorm (- (2 * pi)) = - (2 * pi)"
  by (simp add: piNorm_def fmod_def trunc_def ceiling_minus_half)




subsection \<open>The comet's eccentricity\<close>

text \<open>
  Claim C9: the eccentricity that \<open>comet\<close> hands to the Kepler loop is the catalogue
  value clamped to \<open>maxe = 0.999\<close>, so it is at most 0.999 and strictly below 1 whatever
  the elements are; for the elements the program hard-codes it is 0.990111.
\<close>

theorem comet_ecc_clamped:
  "fst (comet_kepler_args elm eday) = min (ce_e elm) maxe \<and>
   fst (comet_kepler_args elm eday) \<le> 0.999 \<and>
   fst (comet_kepler_args elm eday) < 1 \<and>
   comet_enom elm eday =
     kepler (min (ce_e elm) maxe) (fst (snd (comet_kepler_args elm eday)))
       (snd (snd (comet_kepler_args elm eday))) \<and>
   fst (comet_kepler_args (elem tj) eday) = 0.990111"
  by (simp add: comet_enom_def comet_kepler_args_def Let_def maxe_def min_def elem_def)

subsection \<open>The Sun's elevation and the event buffer\<close>

lemma and_bit_cases:
  fixes w :: "64 word"
  assumes "n < 64"
  shows "w AND push_bit n 1 = (if bit w n then push_bit n 1 else 0)"
  using assms by (auto intro!: bit_eqI simp: bit_simps)

lemma flag_test_dark: "(sint (w AND dark) > 0) = (w AND dark \<noteq> 0)"
proof -
  have "w AND dark = (if bit w 12 then dark else 0)"
    unfolding dark_def by (rule and_bit_cases) simp
  moreover have "sint dark = 4096"
    by (simp add: dark_def)
  moreover have "dark \<noteq> 0"
    by (simp add: dark_def)
  ultimately show ?thesis
    by simp
qed

lemma flag_test_light: "(sint (w AND light) > 0) = (w AND light \<noteq> 0)"
proof -
  have "w AND light = (if bit w 15 then light else 0)"
    unfolding light_def by (rule and_bit_cases) simp
  moreover have "sint light = 32768"
    by (simp add: light_def)
  moreover have "light \<noteq> 0"
    by (simp add: light_def)
  ultimately show ?thesis
    by simp
qed

lemma sunel_out: "int_of_float ov t < 0 \<or> int_of_float ov t > 12 \<Longrightarrow> sunel ov pts t = Some (- 90)"
  by (auto simp: sunel_def Let_def npts_def)

lemma sunel_in:
  assumes "length pts = npts + 2" "0 \<le> int_of_float ov t" "int_of_float ov t \<le> 12"
  shows "sunel ov pts t =
    Some (el (pts ! nat (int_of_float ov t))
          + (t - of_int (int_of_float ov t))
            * (el (pts ! nat (int_of_float ov t + 1)) - el (pts ! nat (int_of_float ov t))))"
  using assms by (simp add: sunel_def Let_def npts_def point_at_def)

lemma sunel_total: "length pts = npts + 2 \<Longrightarrow> \<exists>v. sunel ov pts t = Some v"
  by (cases "int_of_float ov t < 0 \<or> int_of_float ov t > 12")
     (simp_all add: sunel_out sunel_in)

lemma event_dark_gate:
  "flag e AND dark \<noteq> 0 \<Longrightarrow> sunel ov pts (tim e) = Some v \<Longrightarrow> v > - 12 \<Longrightarrow>
   event ov pts events e = Some (None, events)"
  by (simp add: event_def flag_test_dark)

lemma event_light_gate:
  "flag e AND light \<noteq> 0 \<Longrightarrow> sunel ov pts (tim e) = Some v \<Longrightarrow> v < 0 \<Longrightarrow>
   event ov pts events e = Some (None, events)"
  by (cases "flag e AND dark \<noteq> 0 \<and> v > - 12")
     (auto simp: event_def flag_test_dark flag_test_light)

lemma event_cases:
  assumes "sunel ov pts (tim e) = Some v"
  shows "event ov pts events e =
     (if gated ov pts e then Some (None, events)
      else if length events \<ge> nevents then Some (Some TooManyEvents, events)
      else Some (None, events @ [e]))"
  unfolding event_def gated_def flag_test_dark flag_test_light assms
  by (cases "- 12 < v"; cases "v < 0"; simp)

lemma events_after_length:
  assumes "length pts = npts + 2" "length events \<le> nevents"
  shows "\<exists>evs. events_after ov pts events es = Some evs \<and> length evs \<le> nevents"
  using assms(2)
proof (induction es arbitrary: events)
  case Nil
  then show ?case by simp
next
  case (Cons e es)
  obtain v where v: "sunel ov pts (tim e) = Some v"
    using sunel_total [OF assms(1)] by blast
  have "\<exists>r events1. event ov pts events e = Some (r, events1) \<and> length events1 \<le> nevents"
    using Cons.prems by (simp add: event_cases [OF v])
  then obtain r events1 where ev: "event ov pts events e = Some (r, events1)"
    and len: "length events1 \<le> nevents"
    by blast
  show ?case
    using Cons.IH [OF len] by (simp add: ev)
qed

lemma sunel_flat: "sunel 0 (replicate 14 (flat v)) 3 = Some v"
  by (simp add: sunel_def int_of_float_def trunc_def npts_def point_at_def flat_def)

lemma dark_in: "(ptime OR dark) AND dark \<noteq> 0"
  by (simp add: ptime_def dark_def)

lemma light_in: "(signif OR light OR ptime) AND light \<noteq> 0"
  by (simp add: ptime_def light_def signif_def)

lemma not_gated_plain: "\<not> gated ov pts (plain_evt t 0)"
  by (simp add: gated_def plain_evt_def split: option.splits)

lemma events_after_plain:
  assumes "length pts = npts + 2"
  shows "length events + n \<le> nevents \<Longrightarrow>
    events_after ov pts events (replicate n (plain_evt t 0)) = Some (events @ replicate n (plain_evt t 0))"
proof (induction n arbitrary: events)
  case 0
  then show ?case by simp
next
  case (Suc n)
  obtain v where v: "sunel ov pts (tim (plain_evt t 0)) = Some v"
    using sunel_total [OF assms] by blast
  have "event ov pts events (plain_evt t 0) = Some (None, events @ [plain_evt t 0])"
    using Suc.prems by (simp add: event_cases [OF v] not_gated_plain)
  moreover have "length (events @ [plain_evt t 0]) + n \<le> nevents"
    using Suc.prems by simp
  ultimately show ?case
    using Suc.IH [of "events @ [plain_evt t 0]"] by (simp add: replicate_app_Cons_same)
qed

text \<open>
  Claim C4: for every event record \<open>e\<close> (the Sun's fourteen samples being in place, so
  that \<open>sunel\<close> returns some elevation \<open>v\<close>): if \<open>e\<close> carries the dark flag and \<open>v\<close>
  exceeds -12 degrees, \<open>event\<close> returns nil and leaves the buffer as it was; and if \<open>e\<close>
  carries the light flag and \<open>v\<close> is below 0 degrees, likewise.
\<close>

theorem event_gating:
  assumes "length pts = npts + 2"
  shows "\<exists>v. sunel ov pts (tim e) = Some v \<and>
     (flag e AND dark \<noteq> 0 \<and> v > - 12 \<longrightarrow> event ov pts events e = Some (None, events)) \<and>
     (flag e AND light \<noteq> 0 \<and> v < 0 \<longrightarrow> event ov pts events e = Some (None, events))"
proof -
  obtain v where v: "sunel ov pts (tim e) = Some v"
    using sunel_total [OF assms] by blast
  show ?thesis
    using v event_dark_gate [OF _ v] event_light_gate [OF _ v] by blast
qed

theorem event_gating_witness:
  "length (replicate 14 (flat 30)) = npts + 2 \<and>
   sunel 0 (replicate 14 (flat 30)) (tim (plain_evt 3 (ptime OR dark))) = Some 30 \<and>
   flag (plain_evt 3 (ptime OR dark)) AND dark \<noteq> 0 \<and>
   event 0 (replicate 14 (flat 30)) [] (plain_evt 3 (ptime OR dark)) = Some (None, []) \<and>
   length (replicate 14 (flat (- 30))) = npts + 2 \<and>
   sunel 0 (replicate 14 (flat (- 30))) (tim (plain_evt 3 (signif OR light OR ptime))) = Some (- 30) \<and>
   flag (plain_evt 3 (signif OR light OR ptime)) AND light \<noteq> 0 \<and>
   event 0 (replicate 14 (flat (- 30))) [] (plain_evt 3 (signif OR light OR ptime)) = Some (None, [])"
proof -
  have len: "length (replicate 14 (flat v)) = npts + 2" for v
    by (simp add: npts_def)
  have d: "event 0 (replicate 14 (flat 30)) [] (plain_evt 3 (ptime OR dark)) = Some (None, [])"
    using event_gating [OF len, of 0 30 "plain_evt 3 (ptime OR dark)" "[]"] dark_in
    by (simp add: plain_evt_def sunel_flat)
  have l: "event 0 (replicate 14 (flat (- 30))) [] (plain_evt 3 (signif OR light OR ptime)) = Some (None, [])"
    using event_gating [OF len, of 0 "- 30" "plain_evt 3 (signif OR light OR ptime)" "[]"] light_in
    by (simp add: plain_evt_def sunel_flat)
  show ?thesis
    using d l dark_in light_in by (simp add: npts_def plain_evt_def sunel_flat)
qed

text \<open>
  Claim C5: let \<open>evs\<close> be the buffer after any sequence \<open>es\<close> of calls of \<open>event\<close> from
  the empty buffer. Then \<open>evs\<close> holds at most 100 entries, and a further call returns
  the error "too many events" exactly when its event is not gated and \<open>evs\<close> already
  holds 100 entries; no other error is returned, on the error the buffer is unchanged,
  and the buffer after the call again holds at most 100 entries.
\<close>

theorem event_cap:
  assumes "length pts = npts + 2"
  shows "\<exists>evs. events_after ov pts [] es = Some evs \<and> length evs \<le> nevents \<and>
     (\<exists>r evs'. event ov pts evs e = Some (r, evs') \<and>
        (r = Some TooManyEvents \<longleftrightarrow> \<not> gated ov pts e \<and> length evs = nevents) \<and>
        (r = None \<or> r = Some TooManyEvents) \<and>
        (r = Some TooManyEvents \<longrightarrow> evs' = evs) \<and>
        (gated ov pts e \<longrightarrow> r = None \<and> evs' = evs) \<and>
        (\<not> gated ov pts e \<and> length evs < nevents \<longrightarrow> r = None \<and> evs' = evs @ [e]) \<and>
        length evs' \<le> nevents)"
proof -
  obtain evs where evs: "events_after ov pts [] es = Some evs" and len: "length evs \<le> nevents"
    using events_after_length [OF assms, of "[]" ov es] by auto
  obtain v where v: "sunel ov pts (tim e) = Some v"
    using sunel_total [OF assms] by blast
  have "\<exists>r evs'. event ov pts evs e = Some (r, evs') \<and>
        (r = Some TooManyEvents \<longleftrightarrow> \<not> gated ov pts e \<and> length evs = nevents) \<and>
        (r = None \<or> r = Some TooManyEvents) \<and>
        (r = Some TooManyEvents \<longrightarrow> evs' = evs) \<and>
        (gated ov pts e \<longrightarrow> r = None \<and> evs' = evs) \<and>
        (\<not> gated ov pts e \<and> length evs < nevents \<longrightarrow> r = None \<and> evs' = evs @ [e]) \<and>
        length evs' \<le> nevents"
    using len by (auto simp: event_cases [OF v])
  then show ?thesis
    using evs len by blast
qed

theorem event_cap_witness:
  "length (replicate 14 (flat 30)) = npts + 2 \<and>
   events_after 0 (replicate 14 (flat 30)) [] (replicate 100 (plain_evt 3 0))
     = Some (replicate 100 (plain_evt 3 0)) \<and>
   length (replicate 100 (plain_evt 3 0)) = nevents \<and>
   \<not> gated 0 (replicate 14 (flat 30)) (plain_evt 3 0) \<and>
   event 0 (replicate 14 (flat 30)) (replicate 100 (plain_evt 3 0)) (plain_evt 3 0)
     = Some (Some TooManyEvents, replicate 100 (plain_evt 3 0))"
proof -
  have len: "length (replicate 14 (flat 30)) = npts + 2"
    by (simp add: npts_def)
  have run: "events_after 0 (replicate 14 (flat 30)) [] (replicate 100 (plain_evt 3 0))
     = Some (replicate 100 (plain_evt 3 0))"
    using events_after_plain [OF len, of "[]" 100 0 3] by (simp add: nevents_def)
  have full: "length (replicate 100 (plain_evt 3 0)) = nevents"
    by (simp add: nevents_def)
  show ?thesis
    using event_cap [OF len, of 0 "replicate 100 (plain_evt 3 0)" "plain_evt 3 0"]
      run full not_gated_plain [of 0 "replicate 14 (flat 30)" 3] len
    by auto
qed

text \<open>
  Claim C10, as the code has it. With the fourteen samples of the Sun in place,
  \<open>sunel t\<close> returns for every \<open>t\<close>. When \<open>int(t)\<close> is negative or above 12 it returns
  -90 and reads no sample (the same holds on an empty sample list). Otherwise
  \<open>i = int(t)\<close> lies in \<open>0..12\<close>, \<open>i + 1\<close> is inside the array, the result is the
  interpolation between the samples \<open>i\<close> and \<open>i + 1\<close> and depends on no other sample.
  An event that requires sunlight and whose \<open>int(t)\<close> is negative or above 12 is
  dropped. The conversion \<open>int(t)\<close> truncates towards zero, so this covers the times
  \<open>t \<le> -1\<close> and \<open>t \<ge> 13\<close>, not all the times outside the window.
\<close>

theorem sunel_in_bounds:
  assumes "length pts = npts + 2"
  shows "(\<exists>v. sunel ov pts t = Some v) \<and>
     (int_of_float ov t < 0 \<or> int_of_float ov t > int npts \<longrightarrow>
        sunel ov pts t = Some (- 90) \<and> sunel ov [] t = Some (- 90)) \<and>
     (0 \<le> int_of_float ov t \<and> int_of_float ov t \<le> int npts \<longrightarrow>
        nat (int_of_float ov t) + 1 < length pts \<and>
        sunel ov pts t =
          Some (el (pts ! nat (int_of_float ov t))
                + (t - of_int (int_of_float ov t))
                  * (el (pts ! (nat (int_of_float ov t) + 1)) - el (pts ! nat (int_of_float ov t)))) \<and>
        (\<forall>pts'. length pts' = npts + 2 \<and>
            pts' ! nat (int_of_float ov t) = pts ! nat (int_of_float ov t) \<and>
            pts' ! (nat (int_of_float ov t) + 1) = pts ! (nat (int_of_float ov t) + 1) \<longrightarrow>
            sunel ov pts' t = sunel ov pts t)) \<and>
     ((int_of_float ov (tim e) < 0 \<or> int_of_float ov (tim e) > int npts) \<and>
        flag e AND light \<noteq> 0 \<longrightarrow> event ov pts events e = Some (None, events))"
proof (intro conjI impI)
  show "\<exists>v. sunel ov pts t = Some v"
    by (rule sunel_total [OF assms])
next
  assume "int_of_float ov t < 0 \<or> int_of_float ov t > int npts"
  then show "sunel ov pts t = Some (- 90)" and "sunel ov [] t = Some (- 90)"
    by (simp_all add: sunel_out npts_def)
next
  assume a: "0 \<le> int_of_float ov t \<and> int_of_float ov t \<le> int npts"
  then show "nat (int_of_float ov t) + 1 < length pts"
    using assms unfolding npts_def by arith
  have nat1: "nat (int_of_float ov t + 1) = nat (int_of_float ov t) + 1"
    using a by arith
  show "sunel ov pts t =
          Some (el (pts ! nat (int_of_float ov t))
                + (t - of_int (int_of_float ov t))
                  * (el (pts ! (nat (int_of_float ov t) + 1)) - el (pts ! nat (int_of_float ov t))))"
    using a sunel_in [OF assms, of ov t] by (simp add: npts_def nat1)
  show "\<forall>pts'. length pts' = npts + 2 \<and>
            pts' ! nat (int_of_float ov t) = pts ! nat (int_of_float ov t) \<and>
            pts' ! (nat (int_of_float ov t) + 1) = pts ! (nat (int_of_float ov t) + 1) \<longrightarrow>
            sunel ov pts' t = sunel ov pts t"
  proof (intro allI impI)
    fix pts' :: "obj1 list"
    assume b: "length pts' = npts + 2 \<and>
            pts' ! nat (int_of_float ov t) = pts ! nat (int_of_float ov t) \<and>
            pts' ! (nat (int_of_float ov t) + 1) = pts ! (nat (int_of_float ov t) + 1)"
    then have len': "length pts' = npts + 2" by simp
    show "sunel ov pts' t = sunel ov pts t"
      using a b sunel_in [OF assms, of ov t] sunel_in [OF len', of ov t]
      by (simp add: npts_def nat1)
  qed
next
  assume c: "(int_of_float ov (tim e) < 0 \<or> int_of_float ov (tim e) > int npts) \<and>
        flag e AND light \<noteq> 0"
  then have "sunel ov pts (tim e) = Some (- 90)"
    by (simp add: sunel_out npts_def)
  then show "event ov pts events e = Some (None, events)"
    using c event_light_gate [of e ov pts "- 90" events] by simp
qed

theorem sunel_in_bounds_witness:
  "length (replicate 14 (flat 30)) = npts + 2 \<and>
   int_of_float 0 (- 5) < 0 \<and>
   sunel 0 (replicate 14 (flat 30)) (- 5) = Some (- 90) \<and>
   flag (plain_evt (- 5) (signif OR light OR ptime)) AND light \<noteq> 0 \<and>
   event 0 (replicate 14 (flat 30)) [] (plain_evt (- 5) (signif OR light OR ptime)) = Some (None, []) \<and>
   int_of_float 0 (25 / 2) = 12 \<and>
   nat (int_of_float 0 (25 / 2)) + 1 < length (replicate 14 (flat 30)) \<and>
   sunel 0 (replicate 14 (flat 30)) (25 / 2) = Some 30"
proof -
  have len: "length (replicate 14 (flat 30)) = npts + 2"
    by (simp add: npts_def)
  have lo: "int_of_float 0 (- 5) = - 5"
    by (simp add: int_of_float_def trunc_def)
  have "\<lfloor>25 / 2 :: real\<rfloor> = 12"
    by (rule floor_unique) simp_all
  then have hi: "int_of_float 0 (25 / 2) = 12"
    by (simp add: int_of_float_def trunc_def)
  note th = sunel_in_bounds [OF len, of 0 _ "plain_evt (- 5) (signif OR light OR ptime)" "[]"]
  have a: "sunel 0 (replicate 14 (flat 30)) (- 5) = Some (- 90)"
    using th [of "- 5"] lo by simp
  have b: "event 0 (replicate 14 (flat 30)) [] (plain_evt (- 5) (signif OR light OR ptime)) = Some (None, [])"
    using th [of "- 5"] lo light_in by (simp add: plain_evt_def)
  have c: "sunel 0 (replicate 14 (flat 30)) (25 / 2) = Some 30"
    using th [of "25 / 2"] hi by (simp add: npts_def flat_def)
  show ?thesis
    using a b c lo hi light_in by (simp add: npts_def plain_evt_def)
qed

text \<open>
  The claim as stated fails half a sample before the window: \<open>int(-1/2)\<close> is 0,
  \<open>sunel\<close> extends the line through the first two samples, and with the Sun 30
  degrees up an event that requires sunlight is kept.
\<close>

theorem sunel_window_counterexample:
  "- (1 / 2) < (0::real) \<and>
   int_of_float 0 (- (1 / 2)) = 0 \<and>
   sunel 0 (replicate 14 (flat 30)) (- (1 / 2)) = Some 30 \<and>
   flag (plain_evt (- (1 / 2)) light) AND light \<noteq> 0 \<and>
   event 0 (replicate 14 (flat 30)) [] (plain_evt (- (1 / 2)) light)
     = Some (None, [plain_evt (- (1 / 2)) light])"
proof -
  have i: "int_of_float 0 (- (1 / 2)) = 0"
    by (simp add: int_of_float_def trunc_def ceiling_minus_half)
  have s: "sunel 0 (replicate 14 (flat 30)) (- (1 / 2)) = Some 30"
    by (simp add: sunel_def Let_def i point_at_def npts_def flat_def)
  have l: "light AND light \<noteq> 0"
    by (simp add: light_def)
  have nd: "light AND dark = 0"
    by (simp add: light_def dark_def)
  have e: "event 0 (replicate 14 (flat 30)) [] (plain_evt (- (1 / 2)) light)
     = Some (None, [plain_evt (- (1 / 2)) light])"
    unfolding event_def flag_test_dark flag_test_light
    by (simp add: plain_evt_def s l nd nevents_def)
  show ?thesis
    using i s l e by (simp add: plain_evt_def)
qed

subsection \<open>Rise and set\<close>

lemma rise_loop_step:
  "rise_loop pts elv i =
     (if i < length pts then
        (if upcross pts elv i then crossing pts elv i else rise_loop pts elv (i + 1))
      else - 1)"
  by (simp add: rise_loop.simps [of pts elv i] upcross_def crossing_def Let_def)

lemma set_loop_step:
  "set_loop pts elv i =
     (if i < length pts then
        (if downcross pts elv i then crossing pts elv i else set_loop pts elv (i + 1))
      else - 1)"
  by (simp add: set_loop.simps [of pts elv i] downcross_def crossing_def Let_def)

lemma rise_loop_first:
  assumes "i < length pts" "upcross pts elv i"
  shows "k \<le> i \<Longrightarrow> (\<forall>j. k \<le> j \<and> j < i \<longrightarrow> \<not> upcross pts elv j) \<Longrightarrow>
    rise_loop pts elv k = crossing pts elv i"
proof (induction "i - k" arbitrary: k)
  case 0
  then have "k = i" by simp
  then show ?case
    using assms by (simp add: rise_loop_step [of pts elv i])
next
  case (Suc n)
  then have lt: "k < i" by simp
  then have no: "\<not> upcross pts elv k"
    using Suc.prems by simp
  have "rise_loop pts elv k = rise_loop pts elv (k + 1)"
    using lt assms(1) no by (simp add: rise_loop_step [of pts elv k])
  moreover have "rise_loop pts elv (k + 1) = crossing pts elv i"
    using Suc lt by (intro Suc.hyps(1)) auto
  ultimately show ?case by simp
qed

lemma rise_loop_none:
  "(\<forall>j. k \<le> j \<and> j < length pts \<longrightarrow> \<not> upcross pts elv j) \<Longrightarrow> rise_loop pts elv k = - 1"
proof (induction pts elv k rule: rise_loop.induct)
  case (1 pts elv i)
  show ?case
  proof (cases "i < length pts")
    case True
    then have no: "\<not> upcross pts elv i"
      using "1.prems" by simp
    have "rise_loop pts elv (i + 1) = - 1"
      using True no "1.prems" by (intro "1.IH") (auto simp: upcross_def)
    then show ?thesis
      using True no by (simp add: rise_loop_step [of pts elv i])
  next
    case False
    then show ?thesis by (simp add: rise_loop_step [of pts elv i])
  qed
qed

lemma set_loop_first:
  assumes "i < length pts" "downcross pts elv i"
  shows "k \<le> i \<Longrightarrow> (\<forall>j. k \<le> j \<and> j < i \<longrightarrow> \<not> downcross pts elv j) \<Longrightarrow>
    set_loop pts elv k = crossing pts elv i"
proof (induction "i - k" arbitrary: k)
  case 0
  then have "k = i" by simp
  then show ?case
    using assms by (simp add: set_loop_step [of pts elv i])
next
  case (Suc n)
  then have lt: "k < i" by simp
  then have no: "\<not> downcross pts elv k"
    using Suc.prems by simp
  have "set_loop pts elv k = set_loop pts elv (k + 1)"
    using lt assms(1) no by (simp add: set_loop_step [of pts elv k])
  moreover have "set_loop pts elv (k + 1) = crossing pts elv i"
    using Suc lt by (intro Suc.hyps(1)) auto
  ultimately show ?case by simp
qed

lemma set_loop_none:
  "(\<forall>j. k \<le> j \<and> j < length pts \<longrightarrow> \<not> downcross pts elv j) \<Longrightarrow> set_loop pts elv k = - 1"
proof (induction pts elv k rule: set_loop.induct)
  case (1 pts elv i)
  show ?case
  proof (cases "i < length pts")
    case True
    then have no: "\<not> downcross pts elv i"
      using "1.prems" by simp
    have "set_loop pts elv (i + 1) = - 1"
      using True no "1.prems" by (intro "1.IH") (auto simp: downcross_def)
    then show ?thesis
      using True no by (simp add: set_loop_step [of pts elv i])
  next
    case False
    then show ?thesis by (simp add: set_loop_step [of pts elv i])
  qed
qed

lemma crossing_up_bounds:
  assumes "1 \<le> i" "upcross pts elv i"
  shows "real (i - 1) \<le> crossing pts elv i \<and> crossing pts elv i < real i"
proof -
  let ?a = "el (pts ! (i - 1))" and ?b = "el (pts ! i)"
  have ab: "?a \<le> elv" "elv < ?b"
    using assms(2) by (simp_all add: upcross_def)
  then have "0 \<le> (elv - ?a) / (?b - ?a)" "(elv - ?a) / (?b - ?a) < 1"
    by simp_all
  moreover have "real i = real (i - 1) + 1"
    using assms(1) by simp
  ultimately show ?thesis
    unfolding crossing_def by linarith
qed

lemma crossing_down_bounds:
  assumes "1 \<le> i" "downcross pts elv i"
  shows "real (i - 1) < crossing pts elv i \<and> crossing pts elv i \<le> real i"
proof -
  let ?a = "el (pts ! (i - 1))" and ?b = "el (pts ! i)"
  have ab: "?a > elv" "elv \<ge> ?b"
    using assms(2) by (simp_all add: downcross_def)
  then have neg: "?b - ?a < 0" by simp
  have "0 < (elv - ?a) / (?b - ?a)"
    using ab neg by (simp add: divide_neg_neg)
  moreover have "(elv - ?a) / (?b - ?a) \<le> 1"
    using ab neg by (simp add: divide_le_eq)
  moreover have "real i = real (i - 1) + 1"
    using assms(1) by simp
  ultimately show ?thesis
    unfolding crossing_def by linarith
qed

lemma day_arc_length: "length day_arc = 14"
  by (simp add: day_arc_def)

lemma arc_el: "j < 14 \<Longrightarrow> el (point arc_body ! j) = day_arc ! j"
  by (simp add: arc_body_def flat_def day_arc_length)

lemma day_arc_nth:
  "day_arc ! 0 = - 5" "day_arc ! Suc 0 = - 4" "day_arc ! 2 = - 3" "day_arc ! 3 = - 1"
  "day_arc ! 4 = 2" "day_arc ! 5 = 3" "day_arc ! 6 = 4" "day_arc ! 7 = 5" "day_arc ! 8 = 6"
  "day_arc ! 9 = 5" "day_arc ! 10 = 4" "day_arc ! 11 = - 1" "day_arc ! 12 = - 2"
  "day_arc ! 13 = - 3"
  by (simp_all add: day_arc_def)

lemma day_arc_bound: "j < 14 \<Longrightarrow> day_arc ! j < 100"
proof -
  assume "j < 14"
  then have "day_arc ! j \<in> set day_arc"
    by (simp add: day_arc_length)
  moreover have "\<forall>x \<in> set day_arc. x < 100"
    by (simp add: day_arc_def)
  ultimately show ?thesis
    by blast
qed

text \<open>
  Claim C6: for a body with fourteen samples, \<open>rise\<close> returns, for the first \<open>i\<close> with
  \<open>el[i-1] \<le> el < el[i]\<close>, the fractional index \<open>(i - 1) + (el - el[i-1]) / (el[i] - el[i-1])\<close>,
  which lies between \<open>i - 1\<close> and \<open>i\<close>; \<open>set\<close> returns the same expression for the first
  \<open>k\<close> with \<open>el[k-1] > el \<ge> el[k]\<close>; and each returns -1 when the samples have no such
  pair. When the elevations cross the threshold once upwards and once downwards, these
  first pairs are the only ones.
\<close>

theorem rise_set_crossing:
  assumes "length (point ob) = npts + 2"
  shows
   "(1 \<le> i \<and> i < npts + 2 \<and> upcross (point ob) elv i \<and>
       (\<forall>j. 1 \<le> j \<and> j < i \<longrightarrow> \<not> upcross (point ob) elv j) \<longrightarrow>
       rise ob elv = crossing (point ob) elv i \<and>
       real (i - 1) \<le> rise ob elv \<and> rise ob elv < real i) \<and>
    ((\<forall>j. 1 \<le> j \<and> j < npts + 2 \<longrightarrow> \<not> upcross (point ob) elv j) \<longrightarrow> rise ob elv = - 1) \<and>
    (1 \<le> k \<and> k < npts + 2 \<and> downcross (point ob) elv k \<and>
       (\<forall>j. 1 \<le> j \<and> j < k \<longrightarrow> \<not> downcross (point ob) elv j) \<longrightarrow>
       set_obj ob elv = crossing (point ob) elv k \<and>
       real (k - 1) < set_obj ob elv \<and> set_obj ob elv \<le> real k) \<and>
    ((\<forall>j. 1 \<le> j \<and> j < npts + 2 \<longrightarrow> \<not> downcross (point ob) elv j) \<longrightarrow> set_obj ob elv = - 1)"
proof (intro conjI impI)
  assume a: "1 \<le> i \<and> i < npts + 2 \<and> upcross (point ob) elv i \<and>
       (\<forall>j. 1 \<le> j \<and> j < i \<longrightarrow> \<not> upcross (point ob) elv j)"
  then show r: "rise ob elv = crossing (point ob) elv i"
    unfolding rise_def using assms by (intro rise_loop_first) auto
  show "real (i - 1) \<le> rise ob elv" and "rise ob elv < real i"
    using a crossing_up_bounds [of i "point ob" elv] by (simp_all add: r)
next
  assume "\<forall>j. 1 \<le> j \<and> j < npts + 2 \<longrightarrow> \<not> upcross (point ob) elv j"
  then show "rise ob elv = - 1"
    unfolding rise_def using assms by (intro rise_loop_none) auto
next
  assume a: "1 \<le> k \<and> k < npts + 2 \<and> downcross (point ob) elv k \<and>
       (\<forall>j. 1 \<le> j \<and> j < k \<longrightarrow> \<not> downcross (point ob) elv j)"
  then show r: "set_obj ob elv = crossing (point ob) elv k"
    unfolding set_obj_def using assms by (intro set_loop_first) auto
  show "real (k - 1) < set_obj ob elv" and "set_obj ob elv \<le> real k"
    using a crossing_down_bounds [of k "point ob" elv] by (simp_all add: r)
next
  assume "\<forall>j. 1 \<le> j \<and> j < npts + 2 \<longrightarrow> \<not> downcross (point ob) elv j"
  then show "set_obj ob elv = - 1"
    unfolding set_obj_def using assms by (intro set_loop_none) auto
qed

text \<open>
  The instance of the specification: samples 3 and 4 at -1 and 2 degrees and the
  threshold 0 give the index \<open>3 + 1/3\<close>.
\<close>

theorem rise_set_crossing_witness:
  "length (point arc_body) = npts + 2 \<and>
   el (point arc_body ! 3) = - 1 \<and> el (point arc_body ! 4) = 2 \<and>
   rise arc_body 0 = 10 / 3 \<and>
   el (point arc_body ! 10) = 4 \<and> el (point arc_body ! 11) = - 1 \<and>
   set_obj arc_body 0 = 54 / 5 \<and>
   rise arc_body 100 = - 1 \<and> set_obj arc_body 100 = - 1"
proof -
  have len: "length (point arc_body) = npts + 2"
    by (simp add: arc_body_def day_arc_length npts_def)
  note th = rise_set_crossing [OF len]
  have up: "upcross (point arc_body) 0 j \<longleftrightarrow> j = 4" if "1 \<le> j" "j \<le> 4" for j
  proof -
    have "j = 1 \<or> j = 2 \<or> j = 3 \<or> j = 4" using that by arith
    then show ?thesis
      by (auto simp: upcross_def arc_el day_arc_nth)
  qed
  have down: "downcross (point arc_body) 0 j \<longleftrightarrow> j = 11" if "1 \<le> j" "j \<le> 11" for j
  proof -
    have "j = 1 \<or> j = 2 \<or> j = 3 \<or> j = 4 \<or> j = 5 \<or> j = 6 \<or> j = 7 \<or> j = 8 \<or> j = 9
        \<or> j = 10 \<or> j = 11"
      using that by arith
    then show ?thesis
      by (auto simp: downcross_def arc_el day_arc_nth)
  qed
  have r: "rise arc_body 0 = 10 / 3"
    using th [of 4 0 11] up by (simp add: npts_def crossing_def arc_el day_arc_nth)
  have st: "set_obj arc_body 0 = 54 / 5"
    using th [of 4 0 11] down by (simp add: npts_def crossing_def arc_el day_arc_nth)
  have noup: "\<not> upcross (point arc_body) 100 j" if "j < 14" for j
    using that day_arc_bound [of j] by (simp add: upcross_def arc_el)
  have nodown: "\<not> downcross (point arc_body) 100 j" if "1 \<le> j" "j < 14" for j
  proof -
    have "j - 1 < 14" using that by simp
    then show ?thesis
      using day_arc_bound [of "j - 1"] by (simp add: downcross_def arc_el)
  qed
  have r2: "rise arc_body 100 = - 1"
    using th [of 4 100 11] noup by (simp add: npts_def)
  have s2: "set_obj arc_body 100 = - 1"
    using th [of 4 100 11] nodown by (simp add: npts_def)
  show ?thesis
    using len r st r2 s2 by (simp add: arc_el day_arc_nth)
qed

subsection \<open>The topocentric right ascension\<close>

lemma minus_half_pi_le: "- (pi / 2) \<le> pi"
  using pi_gt_zero by linarith

lemma atan2_range: "- pi < atan2 y x \<and> atan2 y x \<le> pi"
proof -
  have a: "- (pi / 2) < arctan (y / x)" "arctan (y / x) < pi / 2"
    using arctan_lbound [of "y / x"] arctan_ubound [of "y / x"] by blast+
  consider "0 < x" | "x < 0" "0 \<le> y" | "x < 0" "y < 0" | "x = 0"
    by linarith
  then show ?thesis
  proof cases
    case 1
    then show ?thesis using a by (simp add: atan2_def)
  next
    case 2
    then have "y / x \<le> 0" by (simp add: divide_nonneg_neg)
    then have "arctan (y / x) \<le> 0" by (simp add: arctan_le_zero_iff)
    then show ?thesis using 2 a by (simp add: atan2_def)
  next
    case 3
    then have "0 < y / x" by (simp add: divide_neg_neg)
    then have "0 < arctan (y / x)" by (simp add: zero_less_arctan_iff)
    then show ?thesis using 3 a by (simp add: atan2_def)
  next
    case 4
    then show ?thesis by (simp add: atan2_def minus_half_pi_le)
  qed
qed

lemma geo_ra: "ra (geo g) = pinorm (gst g - lha (geo g) - wlong g)"
  by (simp add: geo_def Let_def)

lemma geo_p_ra: "ra (geo_p g) = piNorm (gst g - lha (geo_p g) - wlong g)"
  by (simp add: geo_p_def Let_def)

lemma geo_lha: "\<exists>y x. lha (geo g) = atan2 y x"
  by (simp add: geo_def Let_def) blast

lemma geo_p_lha: "\<exists>y x. lha (geo_p g) = atan2 y x"
  by (simp add: geo_p_def Let_def) blast

lemma pinorm_minus_half: "pinorm (- (pi / 2)) = - (pi / 2)"
  by (rule pinorm_id) (simp_all add: minus_half_pi_le)

lemma geo_west: "lha (geo west_point) = pi / 2 \<and> ra (geo west_point) = - (pi / 2)"
  by (simp add: geo_def Let_def west_point_def atan2_def pinorm_minus_half)

lemma geo_p_west: "lha (geo_p west_point) = pi / 2 \<and> ra (geo_p west_point) = - (pi / 2)"
  by (simp add: geo_p_def Let_def west_point_def atan2_def piNorm_def fmod_def trunc_def)

text \<open>
  Claim C8, as the code has it. The claim puts the stored right ascension in
  \<open>[0, 2 pi)\<close>. \<open>geo\<close> stores \<open>pinorm (gst - lha - wlong)\<close>, which lies in \<open>[-pi, pi]\<close>
  (negative for half of the sky). The local hour angle, a value of \<open>atan2\<close>, lies in
  \<open>(-pi, pi]\<close>, in \<open>src/astro.go\<close> and in \<open>src/unnamed/part_000\<close>.
\<close>

theorem geo_ra_range:
  "ra (geo g) = pinorm (gst g - lha (geo g) - wlong g) \<and>
   - pi \<le> ra (geo g) \<and> ra (geo g) \<le> pi \<and>
   - pi < lha (geo g) \<and> lha (geo g) \<le> pi \<and>
   - pi < lha (geo_p g) \<and> lha (geo_p g) \<le> pi"
proof -
  obtain y x where 1: "lha (geo g) = atan2 y x"
    using geo_lha by blast
  obtain y' x' where 2: "lha (geo_p g) = atan2 y' x'"
    using geo_p_lha by blast
  show ?thesis
    using atan2_range [of y x] atan2_range [of y' x'] pinorm_range [of "gst g - lha (geo g) - wlong g"]
    by (simp add: geo_ra 1 2)
qed

theorem geo_ra_range_witness:
  "ra (geo west_point) = - (pi / 2) \<and> - pi \<le> ra (geo west_point) \<and> ra (geo west_point) \<le> pi \<and>
   lha (geo west_point) = pi / 2 \<and> - pi < lha (geo west_point) \<and> lha (geo west_point) \<le> pi \<and>
   - pi < lha (geo_p west_point) \<and> lha (geo_p west_point) \<le> pi"
  using geo_ra_range [of west_point] geo_west by simp

text \<open>
  The claim as stated fails for an object at right ascension \<open>-pi/2\<close>: both versions
  of \<open>geo\<close> store \<open>-pi/2\<close>, which is negative.
\<close>

theorem geo_ra_nonneg_counterexample:
  "\<not> (0 \<le> ra (geo west_point) \<and> ra (geo west_point) < 2 * pi) \<and>
   \<not> (0 \<le> ra (geo_p west_point) \<and> ra (geo_p west_point) < 2 * pi)"
  using geo_west geo_p_west by simp

subsection \<open>Occultations: the scanning loops\<close>

text \<open>
  The coarse loop and the scanning loop stop at the first 3-point minimum, and run
  to the end when there is none.
\<close>

lemma first_min3_Some:
  "first_min3 d n = Some k \<longleftrightarrow>
     1 \<le> k \<and> k < n \<and> min3 d k \<and> (\<forall>j. 1 \<le> j \<and> j < k \<longrightarrow> \<not> min3 d j)"
proof
  assume "first_min3 d n = Some k"
  then obtain i where i: "i < length [1..<n]" "min3 d ([1..<n] ! i)" "k = [1..<n] ! i"
    "\<forall>j<i. \<not> min3 d ([1..<n] ! j)"
    unfolding first_min3_def find_Some_iff by blast
  have k: "k = 1 + i" and "i < n - 1"
    using i(1,3) by simp_all
  have "\<not> min3 d j" if "1 \<le> j" "j < k" for j
  proof -
    have "j - 1 < i" using that k by simp
    then have "\<not> min3 d ([1..<n] ! (j - 1))" using i(4) by blast
    moreover have "[1..<n] ! (j - 1) = j"
      using that k \<open>i < n - 1\<close> by simp
    ultimately show ?thesis by simp
  qed
  then show "1 \<le> k \<and> k < n \<and> min3 d k \<and> (\<forall>j. 1 \<le> j \<and> j < k \<longrightarrow> \<not> min3 d j)"
    using i k \<open>i < n - 1\<close> by auto
next
  assume a: "1 \<le> k \<and> k < n \<and> min3 d k \<and> (\<forall>j. 1 \<le> j \<and> j < k \<longrightarrow> \<not> min3 d j)"
  have "k - 1 < length [1..<n]" using a by auto
  moreover have "[1..<n] ! (k - 1) = k" using a by auto
  moreover have "\<forall>j<k - 1. \<not> min3 d ([1..<n] ! j)"
  proof (intro allI impI)
    fix j assume "j < k - 1"
    then have "1 + j < n" "1 + j < k" using a by auto
    then have "[1..<n] ! j = 1 + j" "1 + j < k" by simp_all
    then show "\<not> min3 d ([1..<n] ! j)" using a by simp
  qed
  ultimately show "first_min3 d n = Some k"
    unfolding first_min3_def find_Some_iff using a by metis
qed

lemma first_min3_None:
  "first_min3 d n = None \<longleftrightarrow> (\<forall>j. 1 \<le> j \<and> j < n \<longrightarrow> \<not> min3 d j)"
  unfolding first_min3_def find_None_iff by auto

lemma setpt_dels [simp]:
  "del0 (setpt oc x) = del0 oc" "del1 (setpt oc x) = del1 oc" "del2 (setpt oc x) = del2 oc"
  by (simp_all add: setpt_def Let_def)

lemma setpt_setpt [simp]: "setpt (setpt oc x) y = setpt oc y"
  by (simp add: setpt_def Let_def)

lemma sep_setpt [simp]: "sep (setpt a x) (setpt b x') step = sep a b step"
  by (rule ext) (simp add: sep_def)

lemma coarse_loop_step:
  assumes "2 \<le> i"
  shows "coarse_loop p1 p2 i d1 d2 d3 =
     (if i < length p1 then
        (if min3 (dseq p1 p2) (i - 1)
         then (True, i, dseq p1 p2 (i - 2), dseq p1 p2 (i - 1), dseq p1 p2 i)
         else coarse_loop p1 p2 (i + 1) (dseq p1 p2 (i - 2)) (dseq p1 p2 (i - 1)) (dseq p1 p2 i))
      else (False, i, d1, d2, d3))"
proof -
  obtain j where j: "i = Suc (Suc j)"
    using assms by (metis Suc_le_D numeral_2_eq_2 Suc_le_mono)
  show ?thesis
    unfolding j by (simp add: coarse_loop.simps [of p1 p2 "Suc (Suc j)"] Let_def min3_def dseq_def)
qed

lemma coarse_loop_found:
  assumes "min3 (dseq p1 p2) (m - 1)" "m < length p1"
  shows "2 \<le> i \<Longrightarrow> i \<le> m \<Longrightarrow>
    (\<forall>j. i \<le> j \<and> j < m \<longrightarrow> \<not> min3 (dseq p1 p2) (j - 1)) \<Longrightarrow>
    coarse_loop p1 p2 i d1 d2 d3 =
      (True, m, dseq p1 p2 (m - 2), dseq p1 p2 (m - 1), dseq p1 p2 m)"
proof (induction "m - i" arbitrary: i d1 d2 d3)
  case 0
  then have i: "i = m" by simp
  show ?case
    using assms "0.prems"(1) unfolding i by (simp add: coarse_loop_step)
next
  case (Suc n)
  then have lt: "i < m" by simp
  then have no: "\<not> min3 (dseq p1 p2) (i - 1)"
    using Suc.prems by simp
  have step: "coarse_loop p1 p2 i d1 d2 d3 =
      coarse_loop p1 p2 (i + 1) (dseq p1 p2 (i - 2)) (dseq p1 p2 (i - 1)) (dseq p1 p2 i)"
    using lt assms(2) no Suc.prems(1) by (simp add: coarse_loop_step)
  show ?case
    unfolding step using Suc lt by (intro Suc.hyps(1)) auto
qed

lemma coarse_loop_none:
  "2 \<le> i \<Longrightarrow> (\<forall>j. i \<le> j \<and> j < length p1 \<longrightarrow> \<not> min3 (dseq p1 p2) (j - 1)) \<Longrightarrow>
    \<not> fst (coarse_loop p1 p2 i d1 d2 d3)"
proof (induction "length p1 - i" arbitrary: i d1 d2 d3)
  case 0
  then show ?case by (simp add: coarse_loop_step)
next
  case (Suc n)
  then have lt: "i < length p1" by simp
  then have no: "\<not> min3 (dseq p1 p2) (i - 1)"
    using Suc.prems by simp
  have step: "coarse_loop p1 p2 i d1 d2 d3 =
      coarse_loop p1 p2 (i + 1) (dseq p1 p2 (i - 2)) (dseq p1 p2 (i - 1)) (dseq p1 p2 i)"
    using lt no Suc.prems(1) by (simp add: coarse_loop_step)
  show ?case
    unfolding step using Suc lt by (intro Suc.hyps(1)) auto
qed

lemma scan_loop_step:
  assumes "x = real i * step" "2 \<le> i \<longrightarrow> d2 = sep oc1 oc2 step (i - 2)"
    "1 \<le> i \<longrightarrow> d3 = sep oc1 oc2 step (i - 1)"
  shows "scan_loop cnt step i x d1 d2 d3 oc1 oc2 =
     (if i < cnt then
        (if 2 \<le> i \<and> min3 (sep oc1 oc2 step) (i - 1)
         then (True, i, x, sep oc1 oc2 step (i - 2), sep oc1 oc2 step (i - 1),
               sep oc1 oc2 step i, setpt oc1 x, setpt oc2 x)
         else scan_loop cnt step (i + 1) (x + step) d2 d3 (sep oc1 oc2 step i)
               (setpt oc1 x) (setpt oc2 x))
      else (False, i, x, d1, d2, d3, oc1, oc2))"
proof (cases "2 \<le> i")
  case True
  then obtain j where j: "i = Suc (Suc j)"
    by (metis Suc_le_D numeral_2_eq_2 Suc_le_mono)
  have cur: "dist_obj (act (setpt oc1 x)) (act (setpt oc2 x)) = sep oc1 oc2 step i"
    by (simp add: sep_def assms(1))
  show ?thesis
    using assms(2,3) cur unfolding j
    by (simp add: scan_loop.simps [of cnt step "Suc (Suc j)"] Let_def min3_def)
next
  case False
  have cur: "dist_obj (act (setpt oc1 x)) (act (setpt oc2 x)) = sep oc1 oc2 step i"
    by (simp add: sep_def assms(1))
  show ?thesis
    using False cur by (simp add: scan_loop.simps [of cnt step i] Let_def)
qed

lemma scan_loop_found:
  assumes "min3 (sep a b step) (m - 1)" "2 \<le> m" "m < cnt"
  shows "i \<le> m \<Longrightarrow> x = real i * step \<Longrightarrow>
    (2 \<le> i \<longrightarrow> d2 = sep a b step (i - 2)) \<Longrightarrow> (1 \<le> i \<longrightarrow> d3 = sep a b step (i - 1)) \<Longrightarrow>
    sep oc1 oc2 step = sep a b step \<Longrightarrow>
    (\<forall>j. i \<le> j \<and> 2 \<le> j \<and> j < m \<longrightarrow> \<not> min3 (sep a b step) (j - 1)) \<Longrightarrow>
    scan_loop cnt step i x d1 d2 d3 oc1 oc2 =
      (True, m, real m * step, sep a b step (m - 2), sep a b step (m - 1), sep a b step m,
       setpt oc1 (real m * step), setpt oc2 (real m * step))"
proof (induction "m - i" arbitrary: i x d1 d2 d3 oc1 oc2)
  case 0
  then have i: "i = m" by simp
  show ?case
    using assms "0.prems" unfolding i by (simp add: scan_loop_step)
next
  case (Suc n)
  then have lt: "i < m" by simp
  have no: "\<not> (2 \<le> i \<and> min3 (sep a b step) (i - 1))"
    using Suc.prems(6) lt by auto
  have lt': "i < cnt" using lt assms(3) by simp
  have step: "scan_loop cnt step i x d1 d2 d3 oc1 oc2 =
      scan_loop cnt step (i + 1) (x + step) d2 d3 (sep a b step i) (setpt oc1 x) (setpt oc2 x)"
    using scan_loop_step [of x i step d2 oc1 oc2 d3 cnt d1] Suc.prems(2,3,4) lt' no
    unfolding Suc.prems(5) by (simp only: if_True if_False)
  have x': "x + step = real (i + 1) * step"
    using Suc.prems(2) by (simp add: algebra_simps)
  have "scan_loop cnt step (i + 1) (x + step) d2 d3 (sep a b step i) (setpt oc1 x) (setpt oc2 x) =
      (True, m, real m * step, sep a b step (m - 2), sep a b step (m - 1), sep a b step m,
       setpt (setpt oc1 x) (real m * step), setpt (setpt oc2 x) (real m * step))"
  proof (intro Suc.hyps(1))
    show "n = m - (i + 1)" using Suc.hyps(2) by simp
    show "i + 1 \<le> m" using lt by simp
    show "x + step = real (i + 1) * step" by (rule x')
    show "2 \<le> i + 1 \<longrightarrow> d3 = sep a b step (i + 1 - 2)"
      using Suc.prems(4) by (cases i) (auto simp: numeral_2_eq_2)
    show "1 \<le> i + 1 \<longrightarrow> sep a b step i = sep a b step (i + 1 - 1)" by simp
    show "sep (setpt oc1 x) (setpt oc2 x) step = sep a b step"
      using Suc.prems(5) by simp
    show "\<forall>j. i + 1 \<le> j \<and> 2 \<le> j \<and> j < m \<longrightarrow> \<not> min3 (sep a b step) (j - 1)"
      using Suc.prems(6) by auto
  qed
  then show ?case
    unfolding step by simp
qed

lemma scan_loop_none:
  "x = real i * step \<Longrightarrow>
    (2 \<le> i \<longrightarrow> d2 = sep a b step (i - 2)) \<Longrightarrow> (1 \<le> i \<longrightarrow> d3 = sep a b step (i - 1)) \<Longrightarrow>
    sep oc1 oc2 step = sep a b step \<Longrightarrow>
    (\<forall>j. i \<le> j \<and> 2 \<le> j \<and> j < cnt \<longrightarrow> \<not> min3 (sep a b step) (j - 1)) \<Longrightarrow>
    \<not> fst (scan_loop cnt step i x d1 d2 d3 oc1 oc2)"
proof (induction "cnt - i" arbitrary: i x d1 d2 d3 oc1 oc2)
  case 0
  then show ?case by (simp add: scan_loop_step)
next
  case (Suc n)
  then have lt: "i < cnt" by simp
  have no: "\<not> (2 \<le> i \<and> min3 (sep a b step) (i - 1))"
    using Suc.prems(5) lt by auto
  have step: "scan_loop cnt step i x d1 d2 d3 oc1 oc2 =
      scan_loop cnt step (i + 1) (x + step) d2 d3 (sep a b step i) (setpt oc1 x) (setpt oc2 x)"
    using scan_loop_step [of x i step d2 oc1 oc2 d3 cnt d1] Suc.prems(1,2,3) lt no
    unfolding Suc.prems(4) by (simp only: if_True if_False)
  have x': "x + step = real (i + 1) * step"
    using Suc.prems(1) by (simp add: algebra_simps)
  have "\<not> fst (scan_loop cnt step (i + 1) (x + step) d2 d3 (sep a b step i) (setpt oc1 x) (setpt oc2 x))"
  proof (intro Suc.hyps(1))
    show "n = cnt - (i + 1)" using Suc.hyps(2) by simp
    show "x + step = real (i + 1) * step" by (rule x')
    show "2 \<le> i + 1 \<longrightarrow> d3 = sep a b step (i + 1 - 2)"
      using Suc.prems(3) by (cases i) (auto simp: numeral_2_eq_2)
    show "1 \<le> i + 1 \<longrightarrow> sep a b step i = sep a b step (i + 1 - 1)" by simp
    show "sep (setpt oc1 x) (setpt oc2 x) step = sep a b step"
      using Suc.prems(4) by simp
    show "\<forall>j. i + 1 \<le> j \<and> 2 \<le> j \<and> j < cnt \<longrightarrow> \<not> min3 (sep a b step) (j - 1)"
      using Suc.prems(5) by auto
  qed
  then show ?case
    unfolding step by simp
qed

lemma medium_consts:
  "2880 * per / real npts = 240" "2 / (2880 * per / real npts) = 1 / 120"
  "nat (trunc (2880 * per / real npts + 1)) = 241" "nat (trunc 241) = 241"
  by (simp_all add: per_def npts_def trunc_def)

lemma shift_none:
  assumes "\<forall>j. 1 \<le> j \<and> j < n \<longrightarrow> \<not> P j"
  shows "\<forall>j. (i::nat) \<le> j \<and> 2 \<le> j \<and> j < n + 1 \<longrightarrow> \<not> P (j - 1)"
proof (intro allI impI)
  fix j :: nat
  assume "i \<le> j \<and> 2 \<le> j \<and> j < n + 1"
  then have "1 \<le> j - 1 \<and> j - 1 < n" by arith
  then show "\<not> P (j - 1)" using assms by blast
qed

lemma coarse_run_found:
  assumes "length (point o1) = npts + 2" "coarse_k o1 o2 = Some k0"
  shows "coarse_loop (point o1) (point o2) 2 0 0 0 =
    (True, k0 + 1, dseq (point o1) (point o2) (k0 - 1), dseq (point o1) (point o2) k0,
     dseq (point o1) (point o2) (k0 + 1))"
proof -
  have k: "1 \<le> k0" "k0 < npts + 1" "min3 (dseq (point o1) (point o2)) k0"
    "\<forall>j. 1 \<le> j \<and> j < k0 \<longrightarrow> \<not> min3 (dseq (point o1) (point o2)) j"
    using assms(2) unfolding coarse_k_def first_min3_Some by simp_all
  have "coarse_loop (point o1) (point o2) 2 0 0 0 =
    (True, k0 + 1, dseq (point o1) (point o2) (k0 + 1 - 2), dseq (point o1) (point o2) (k0 + 1 - 1),
     dseq (point o1) (point o2) (k0 + 1))"
  proof (rule coarse_loop_found)
    show "min3 (dseq (point o1) (point o2)) (k0 + 1 - 1)" using k(3) by simp
    show "k0 + 1 < length (point o1)" using k(2) assms(1) by simp
    show "2 \<le> (2::nat)" by simp
    show "2 \<le> k0 + 1" using k(1) by simp
    show "\<forall>j. 2 \<le> j \<and> j < k0 + 1 \<longrightarrow> \<not> min3 (dseq (point o1) (point o2)) (j - 1)"
      using shift_none [OF k(4), of 2] by simp
  qed
  moreover have "k0 + 1 - 2 = k0 - 1" by simp
  ultimately show ?thesis by simp
qed

lemma coarse_run_none:
  assumes "length (point o1) = npts + 2" "coarse_k o1 o2 = None"
  shows "\<not> fst (coarse_loop (point o1) (point o2) 2 0 0 0)"
proof (rule coarse_loop_none)
  show "2 \<le> (2::nat)" by simp
  have no: "\<forall>j. 1 \<le> j \<and> j < npts + 1 \<longrightarrow> \<not> min3 (dseq (point o1) (point o2)) j"
    using assms(2) unfolding coarse_k_def first_min3_None by simp
  show "\<forall>j. 2 \<le> j \<and> j < length (point o1) \<longrightarrow> \<not> min3 (dseq (point o1) (point o2)) (j - 1)"
    using shift_none [OF no, of 2] assms(1) by simp
qed

lemma scan_run_found:
  assumes "scan_k a b = Some k"
  shows "scan_loop 241 (1 / 120) 0 0 d1 d2 d3 a b =
    (True, k + 1, scan_x k, sep a b (1 / 120) (k - 1), sep a b (1 / 120) k,
     sep a b (1 / 120) (k + 1), setpt a (scan_x k), setpt b (scan_x k))"
proof -
  have k: "1 \<le> k" "k < 240" "min3 (sep a b (1 / 120)) k"
    "\<forall>j. 1 \<le> j \<and> j < k \<longrightarrow> \<not> min3 (sep a b (1 / 120)) j"
    using assms unfolding scan_k_def first_min3_Some by simp_all
  have "scan_loop 241 (1 / 120) 0 0 d1 d2 d3 a b =
    (True, k + 1, real (k + 1) * (1 / 120), sep a b (1 / 120) (k + 1 - 2),
     sep a b (1 / 120) (k + 1 - 1), sep a b (1 / 120) (k + 1),
     setpt a (real (k + 1) * (1 / 120)), setpt b (real (k + 1) * (1 / 120)))"
  proof (rule scan_loop_found)
    show "min3 (sep a b (1 / 120)) (k + 1 - 1)" using k(3) by simp
    show "2 \<le> k + 1" using k(1) by simp
    show "k + 1 < 241" using k(2) by simp
    show "0 \<le> k + 1" by simp
    show "(0::real) = real (0::nat) * (1 / 120)" by simp
    show "2 \<le> (0::nat) \<longrightarrow> d2 = sep a b (1 / 120) (0 - 2)" by simp
    show "1 \<le> (0::nat) \<longrightarrow> d3 = sep a b (1 / 120) (0 - 1)" by simp
    show "sep a b (1 / 120) = sep a b (1 / 120)" by simp
    show "\<forall>j. 0 \<le> j \<and> 2 \<le> j \<and> j < k + 1 \<longrightarrow> \<not> min3 (sep a b (1 / 120)) (j - 1)"
      using shift_none [OF k(4), of 0] by simp
  qed
  moreover have "k + 1 - 2 = k - 1" by simp
  ultimately show ?thesis by (simp add: scan_x_def)
qed

lemma scan_run_none:
  assumes "scan_k a b = None"
  shows "\<not> fst (scan_loop 241 (1 / 120) 0 0 d1 d2 d3 a b)"
proof (rule scan_loop_none)
  show "(0::real) = real (0::nat) * (1 / 120)" by simp
  show "2 \<le> (0::nat) \<longrightarrow> d2 = sep a b (1 / 120) (0 - 2)" by simp
  show "1 \<le> (0::nat) \<longrightarrow> d3 = sep a b (1 / 120) (0 - 1)" by simp
  show "sep a b (1 / 120) = sep a b (1 / 120)" by simp
  have no: "\<forall>j. 1 \<le> j \<and> j < 240 \<longrightarrow> \<not> min3 (sep a b (1 / 120)) j"
    using assms unfolding scan_k_def first_min3_None by simp
  show "\<forall>j. 0 \<le> j \<and> 2 \<le> j \<and> j < 241 \<longrightarrow> \<not> min3 (sep a b (1 / 120)) (j - 1)"
    using shift_none [OF no, of 0] by simp
qed

subsection \<open>Occultations: the exits of \<open>occult\<close>\<close>

lemma occult_medium_none:
  assumes "scan_k (set3pt (point o1) (i - 2) (occ1 st)) (set3pt (point o2) (i - 2) (occ2 st)) = None"
  shows "\<exists>st'. occult_medium setime o1 o2 st i d1 d2 d3 = Some (Some Bad1, st') \<and> occ st' = occ st"
proof -
  let ?a1 = "set3pt (point o1) (i - 2) (occ1 st)" and ?a2 = "set3pt (point o2) (i - 2) (occ2 st)"
  obtain ib x d1a d2a d3a b1 b2 where
    "scan_loop 241 (1 / 120) 0 0 d1 d2 d3 ?a1 ?a2 = (False, ib, x, d1a, d2a, d3a, b1, b2)"
    using scan_run_none [OF assms, of d1 d2 d3]
    by (cases "scan_loop 241 (1 / 120) 0 0 d1 d2 d3 ?a1 ?a2") auto
  then show ?thesis
    by (simp add: occult_medium_def Let_def medium_consts)
qed

lemma occult_medium_far:
  assumes "scan_k (set3pt (point o1) (i - 2) (occ1 st)) (set3pt (point o2) (i - 2) (occ2 st)) = Some k1"
    "medium_far (set3pt (point o1) (i - 2) (occ1 st)) (set3pt (point o2) (i - 2) (occ2 st)) k1"
  shows "\<exists>st'. occult_medium setime o1 o2 st i d1 d2 d3 = Some (None, st') \<and> occ st' = occ st"
  using scan_run_found [OF assms(1), of d1 d2 d3] assms(2)
  by (simp add: occult_medium_def Let_def medium_consts medium_far_def)

lemma occult_medium_near:
  assumes "scan_k (set3pt (point o1) (i - 2) (occ1 st)) (set3pt (point o2) (i - 2) (occ2 st)) = Some k1"
    "\<not> medium_far (set3pt (point o1) (i - 2) (occ1 st)) (set3pt (point o2) (i - 2) (occ2 st)) k1"
  shows "occult_medium setime o1 o2 st i d1 d2 d3 =
    occult_fine setime o1 o2 st (real (i - 2)) (scan_x k1) (1 / 120)
      (sep (set3pt (point o1) (i - 2) (occ1 st)) (set3pt (point o2) (i - 2) (occ2 st)) (1 / 120) (k1 - 1))
      (sep (set3pt (point o1) (i - 2) (occ1 st)) (set3pt (point o2) (i - 2) (occ2 st)) (1 / 120) k1)
      (sep (set3pt (point o1) (i - 2) (occ1 st)) (set3pt (point o2) (i - 2) (occ2 st)) (1 / 120) (k1 + 1))
      (setpt (set3pt (point o1) (i - 2) (occ1 st)) (scan_x k1))
      (setpt (set3pt (point o2) (i - 2) (occ2 st)) (scan_x k1))"
  using scan_run_found [OF assms(1), of d1 d2 d3] assms(2)
  by (simp add: occult_medium_def Let_def medium_consts medium_far_def)

lemma occult_fine_none:
  assumes "resample_loop setime o1 o2 (di + (x - 3 * (1 / 120))) (1 / 120) 0 0 zero_points zero_points (env st)
       = (xa, xo1, xo2, g)"
    "scan_k (set3pt xo1 0 b1) (set3pt xo2 0 b2) = None"
  shows "\<exists>st'. occult_fine setime o1 o2 st di x (1 / 120) d1 d2 d3 b1 b2 = Some (Some Bad2, st')
     \<and> occ st' = occ st"
proof -
  let ?c1 = "set3pt xo1 0 b1" and ?c2 = "set3pt xo2 0 b2"
  obtain ib xb d1a d2a d3a h1 h2 where
    "scan_loop 241 (1 / 120) 0 0 d1 d2 d3 ?c1 ?c2 = (False, ib, xb, d1a, d2a, d3a, h1, h2)"
    using scan_run_none [OF assms(2), of d1 d2 d3]
    by (cases "scan_loop 241 (1 / 120) 0 0 d1 d2 d3 ?c1 ?c2") auto
  then show ?thesis
    using assms(1) by (simp add: occult_fine_def Let_def)
qed

lemma occult_fine_far:
  assumes "resample_loop setime o1 o2 (di + (x - 3 * (1 / 120))) (1 / 120) 0 0 zero_points zero_points (env st)
       = (xa, xo1, xo2, g)"
    "scan_k (set3pt xo1 0 b1) (set3pt xo2 0 b2) = Some k2"
    "fine_far (set3pt xo1 0 b1) (set3pt xo2 0 b2) k2"
  shows "\<exists>st'. occult_fine setime o1 o2 st di x (1 / 120) d1 d2 d3 b1 b2 = Some (None, st')
     \<and> occ st' = occ st"
  using scan_run_found [OF assms(2), of d1 d2 d3] assms(1,3)
  by (simp add: occult_fine_def Let_def fine_far_def)

lemma occult_fine_near:
  assumes "resample_loop setime o1 o2 (di + (x - 3 * (1 / 120))) (1 / 120) 0 0 zero_points zero_points (env st)
       = (xa, xo1, xo2, g)"
    "scan_k (set3pt xo1 0 b1) (set3pt xo2 0 b2) = Some k2"
    "\<not> fine_far (set3pt xo1 0 b1) (set3pt xo2 0 b2) k2"
  shows "occult_fine setime o1 o2 st di x (1 / 120) d1 d2 d3 b1 b2 =
    occult_contacts (st\<lparr>env := g\<rparr>) (di + (x - 3 * (1 / 120))) (1 / 7200) (k2 + 1) (scan_x k2)
      (sep (set3pt xo1 0 b1) (set3pt xo2 0 b2) (1 / 120) k2)
      (setpt (set3pt xo1 0 b1) (scan_x k2)) (setpt (set3pt xo2 0 b2) (scan_x k2))"
  using scan_run_found [OF assms(2), of d1 d2 d3] assms(1,3)
  by (simp add: occult_fine_def Let_def fine_far_def)

lemma occult_contacts_nil:
  "occult_contacts st di dx i x d2 h1 h2 = None \<or>
   (\<exists>st'. occult_contacts st di dx i x d2 h1 h2 = Some (None, st'))"
  by (simp add: occult_contacts_def Let_def split: option.split)

lemma occult_coarse_none:
  assumes "length (point o1) = npts + 2" "coarse_k o1 o2 = None"
  shows "\<exists>st'. occult setime o1 o2 st = Some (None, st') \<and> no_contacts (occ st')"
proof -
  obtain i d1 d2 d3 where "coarse_loop (point o1) (point o2) 2 0 0 0 = (False, i, d1, d2, d3)"
    using coarse_run_none [OF assms] by (cases "coarse_loop (point o1) (point o2) 2 0 0 0") auto
  then show ?thesis
    by (simp add: occult_def Let_def no_contacts_def)
qed

lemma start_state_simps [simp]:
  "occ1 (start_state st) = occ1 st" "occ2 (start_state st) = occ2 st"
  "env (start_state st) = env st" "no_contacts (occ (start_state st))"
  by (simp_all add: start_state_def no_contacts_def)

lemma occult_coarse_found:
  assumes "length (point o1) = npts + 2" "coarse_k o1 o2 = Some k0"
  shows "occult setime o1 o2 st =
    occult_medium setime o1 o2 (start_state st) (k0 + 1)
      (dseq (point o1) (point o2) (k0 - 1)) (dseq (point o1) (point o2) k0)
      (dseq (point o1) (point o2) (k0 + 1))"
  using coarse_run_found [OF assms]
  by (simp add: occult_def Let_def start_state_def)

subsection \<open>Occultations: the contact loops\<close>

text \<open>
  A contact loop that returns has seen a separation above the sum of the
  semidiameters; when the separation never exceeds that sum the loop does not
  return, and when it does so on both sides both loops return.
\<close>

lemmas contact_fwd_induct =
  contact_fwd.raw_induct [where xa = "((((((((((i1, d3), d4), di), dx), i), x), d2), oc1), oc2), oc)",
    unfolded prod.case] for i1 d3 d4 di dx i x d2 oc1 oc2 oc

lemmas contact_bwd_induct =
  contact_bwd.raw_induct [where xa = "((((((((((i1, d3), d4), di), dx), i), x), d2), oc1), oc2), oc)",
    unfolded prod.case] for i1 d3 d4 di dx i x d2 oc1 oc2 oc

lemma contact_fwd_Some_exceeds:
  assumes "contact_fwd i1 d3 d4 di dx i x d2 oc1 oc2 oc = Some r"
  shows "\<exists>y. dist_obj (act (setpt oc1 y)) (act (setpt oc2 y)) > d4"
  using assms
proof (induction rule: contact_fwd_induct [rotated 1, consumes 1, case_names step])
  case (step cf i1 d3 d4 di dx i x d2 oc1 oc2 oc r)
  show ?case
  proof (cases "dist_obj (act (setpt oc1 x)) (act (setpt oc2 x)) > d4")
    case True
    then show ?thesis by blast
  next
    case False
    then obtain d2' oc' where "cf i1 d3 d4 di dx (i + 1) (x + 1 / 120) d2' (setpt oc1 x) (setpt oc2 x) oc' = Some r"
      using step(2) by (auto simp: Let_def split: if_splits)
    then have "\<exists>y. d4 < dist_obj (act (setpt (setpt oc1 x) y)) (act (setpt (setpt oc2 x) y))"
      by (rule step(1))
    then show ?thesis by simp
  qed
qed

lemma contact_bwd_Some_exceeds:
  assumes "contact_bwd i1 d3 d4 di dx i x d2 oc1 oc2 oc = Some r"
  shows "\<exists>y. dist_obj (act (setpt oc1 y)) (act (setpt oc2 y)) > d4"
  using assms
proof (induction rule: contact_bwd_induct [rotated 1, consumes 1, case_names step])
  case (step cf i1 d3 d4 di dx i x d2 oc1 oc2 oc r)
  show ?case
  proof (cases "dist_obj (act (setpt oc1 x)) (act (setpt oc2 x)) > d4")
    case True
    then show ?thesis by blast
  next
    case False
    then obtain d2' oc' where "cf i1 d3 d4 di dx (i - 1) (x - 1 / 120) d2' (setpt oc1 x) (setpt oc2 x) oc' = Some r"
      using step(2) by (auto simp: Let_def split: if_splits)
    then have "\<exists>y. d4 < dist_obj (act (setpt (setpt oc1 x) y)) (act (setpt (setpt oc2 x) y))"
      by (rule step(1))
    then show ?thesis by simp
  qed
qed

lemma contact_fwd_diverges:
  "(\<forall>y. dist_obj (act (setpt oc1 y)) (act (setpt oc2 y)) \<le> d4) \<Longrightarrow>
   contact_fwd i1 d3 d4 di dx i x d2 oc1 oc2 oc = None"
  using contact_fwd_Some_exceeds [of i1 d3 d4 di dx i x d2 oc1 oc2 oc]
  by (cases "contact_fwd i1 d3 d4 di dx i x d2 oc1 oc2 oc") (auto simp: not_less [symmetric])

lemma occult_contacts_diverges:
  "(\<forall>y. dist_obj (act (setpt h1 y)) (act (setpt h2 y)) \<le> semi2 (act h1) + semi2 (act h2)) \<Longrightarrow>
   occult_contacts st di dx i x d2 h1 h2 = None"
  by (simp add: occult_contacts_def Let_def contact_fwd_diverges)

lemma sepx_setpt [simp]: "sepx (setpt a x) (setpt b x') = sepx a b"
  by (rule ext) (simp add: sepx_def)

lemma contact_fwd_returns:
  "i1 < i \<Longrightarrow> d4 < sepx oc1 oc2 (x + real n / 120) \<Longrightarrow>
   \<exists>d q1 q2 oc'. contact_fwd i1 d3 d4 di dx i x d2 oc1 oc2 oc = Some (d, q1, q2, oc')
      \<and> sepx q1 q2 = sepx oc1 oc2"
proof (induction n arbitrary: i x d2 oc1 oc2 oc)
  case 0
  then have "d4 < dist_obj (act (setpt oc1 x)) (act (setpt oc2 x))" "i \<noteq> i1"
    by (simp_all add: sepx_def)
  then show ?case
    by (subst contact_fwd.simps) (simp add: Let_def)
next
  case (Suc n)
  have ne: "i \<noteq> i1" using Suc.prems(1) by simp
  have xs: "x + real (Suc n) / 120 = x + 1 / 120 + real n / 120"
    by (simp add: field_simps)
  show ?case
  proof (cases "dist_obj (act (setpt oc1 x)) (act (setpt oc2 x)) > d4")
    case True
    then show ?thesis
      using ne by (subst contact_fwd.simps) (simp add: Let_def)
  next
    case False
    have rec: "\<exists>d q1 q2 oc''. contact_fwd i1 d3 d4 di dx (i + 1) (x + 1 / 120) d2' (setpt oc1 x) (setpt oc2 x) oc'
        = Some (d, q1, q2, oc'') \<and> sepx q1 q2 = sepx oc1 oc2" for d2' oc'
      using Suc.IH [of "i + 1" "setpt oc1 x" "setpt oc2 x" "x + 1 / 120" d2' oc'] Suc.prems
      unfolding xs by simp
    show ?thesis
      using ne False rec by (subst contact_fwd.simps) (simp add: Let_def)
  qed
qed

lemma contact_bwd_returns:
  "i < i1 \<Longrightarrow> d4 < sepx oc1 oc2 (x - real n / 120) \<Longrightarrow>
   \<exists>d q1 q2 oc'. contact_bwd i1 d3 d4 di dx i x d2 oc1 oc2 oc = Some (d, q1, q2, oc')
      \<and> sepx q1 q2 = sepx oc1 oc2"
proof (induction n arbitrary: i x d2 oc1 oc2 oc)
  case 0
  then have "d4 < dist_obj (act (setpt oc1 x)) (act (setpt oc2 x))" "i \<noteq> i1"
    by (simp_all add: sepx_def)
  then show ?case
    by (subst contact_bwd.simps) (simp add: Let_def)
next
  case (Suc n)
  have ne: "i \<noteq> i1" using Suc.prems(1) by simp
  have xs: "x - real (Suc n) / 120 = x - 1 / 120 - real n / 120"
    by (simp add: field_simps)
  show ?case
  proof (cases "dist_obj (act (setpt oc1 x)) (act (setpt oc2 x)) > d4")
    case True
    then show ?thesis
      using ne by (subst contact_bwd.simps) (simp add: Let_def)
  next
    case False
    have rec: "\<exists>d q1 q2 oc''. contact_bwd i1 d3 d4 di dx (i - 1) (x - 1 / 120) d2' (setpt oc1 x) (setpt oc2 x) oc'
        = Some (d, q1, q2, oc'') \<and> sepx q1 q2 = sepx oc1 oc2" for d2' oc'
      using Suc.IH [of "i - 1" "setpt oc1 x" "setpt oc2 x" "x - 1 / 120" d2' oc'] Suc.prems
      unfolding xs by simp
    show ?thesis
      using ne False rec by (subst contact_bwd.simps) (simp add: Let_def)
  qed
qed

lemma occult_contacts_returns:
  assumes "semi2 (act h1) + semi2 (act h2) < sepx h1 h2 (x - 1 / 120 + real (Suc n) / 120)"
    "semi2 (act h1) + semi2 (act h2) < sepx h1 h2 (x - 1 / 120 - real (Suc m) / 120)"
  shows "\<exists>st'. occult_contacts st di dx i x d2 h1 h2 = Some (None, st')"
proof -
  let ?i1 = "int i - 1" and ?x1 = "x - 1 / 120"
  let ?d3 = "\<bar>semi2 (act h1) - semi2 (act h2)\<bar>" and ?d4 = "semi2 (act h1) + semi2 (act h2)"
  let ?oc3 = "(occ st)\<lparr>t3 := di + of_int ?i1 * dx, e3 := el (act h1)\<rparr>"
  have xs: "?x1 + real (Suc n) / 120 = ?x1 + 1 / 120 + real n / 120"
    "?x1 - real (Suc m) / 120 = ?x1 - 1 / 120 - real m / 120"
    by (simp_all add: field_simps)
  have f1: "contact_fwd ?i1 ?d3 ?d4 di dx ?i1 ?x1 d2 h1 h2 ?oc3 =
      contact_fwd ?i1 ?d3 ?d4 di dx (?i1 + 1) (?x1 + 1 / 120)
        (dist_obj (act (setpt h1 ?x1)) (act (setpt h2 ?x1))) (setpt h1 ?x1) (setpt h2 ?x1) ?oc3"
    by (subst contact_fwd.simps) (simp add: Let_def)
  obtain d q1 q2 oc4 where
    f2: "contact_fwd ?i1 ?d3 ?d4 di dx ?i1 ?x1 d2 h1 h2 ?oc3 = Some (d, q1, q2, oc4)"
    and q: "sepx q1 q2 = sepx h1 h2"
    using contact_fwd_returns [of ?i1 "?i1 + 1" ?d4 "setpt h1 ?x1" "setpt h2 ?x1" "?x1 + 1 / 120" n ?d3 di dx
        "dist_obj (act (setpt h1 ?x1)) (act (setpt h2 ?x1))" ?oc3] assms(1)
    unfolding f1 xs by auto
  have b1: "contact_bwd ?i1 ?d3 ?d4 di dx ?i1 ?x1 d q1 q2 oc4 =
      contact_bwd ?i1 ?d3 ?d4 di dx (?i1 - 1) (?x1 - 1 / 120)
        (dist_obj (act (setpt q1 ?x1)) (act (setpt q2 ?x1))) (setpt q1 ?x1) (setpt q2 ?x1) oc4"
    by (subst contact_bwd.simps) (simp add: Let_def)
  obtain d' m1 m2 oc5 where
    b2: "contact_bwd ?i1 ?d3 ?d4 di dx ?i1 ?x1 d q1 q2 oc4 = Some (d', m1, m2, oc5)"
    using contact_bwd_returns [of "?i1 - 1" ?i1 ?d4 "setpt q1 ?x1" "setpt q2 ?x1" "?x1 - 1 / 120" m ?d3 di dx
        "dist_obj (act (setpt q1 ?x1)) (act (setpt q2 ?x1))" oc4] assms(2)
    unfolding b1 xs by (auto simp: q)
  show ?thesis
    unfolding occult_contacts_def Let_def f2 option.case prod.case b2 by blast
qed

subsection \<open>Occultations: the passes one after the other\<close>

lemma fine_recs_resample:
  assumes "fine_recs setime o1 o2 st k0 k1 = (c1, c2)"
  obtains xa xo1 xo2 g where
    "resample_loop setime o1 o2 (refined_di k0 k1) (1 / 120) 0 0 zero_points zero_points (env st)
       = (xa, xo1, xo2, g)"
    "c1 = set3pt xo1 0 (setpt (medium_rec o1 (occ1 st) k0) (scan_x k1))"
    "c2 = set3pt xo2 0 (setpt (medium_rec o2 (occ2 st) k0) (scan_x k1))"
  using assms unfolding fine_recs_def
  by (cases "resample_loop setime o1 o2 (refined_di k0 k1) (1 / 120) 0 0 zero_points zero_points (env st)")
     auto

lemma occult_medium_stage:
  assumes "length (point o1) = npts + 2" "coarse_k o1 o2 = Some k0"
  shows "occult setime o1 o2 st =
    occult_medium setime o1 o2 (start_state st) (k0 + 1)
      (dseq (point o1) (point o2) (k0 - 1)) (dseq (point o1) (point o2) k0)
      (dseq (point o1) (point o2) (k0 + 1))"
    and "set3pt (point o1) (k0 + 1 - 2) (occ1 (start_state st)) = medium_rec o1 (occ1 st) k0"
    and "set3pt (point o2) (k0 + 1 - 2) (occ2 (start_state st)) = medium_rec o2 (occ2 st) k0"
  using occult_coarse_found [OF assms] by (simp_all add: medium_rec_def)

lemma occult_bad1:
  assumes "length (point o1) = npts + 2" "coarse_k o1 o2 = Some k0" "medium_k o1 o2 st k0 = None"
  shows "\<exists>st'. occult setime o1 o2 st = Some (Some Bad1, st') \<and> no_contacts (occ st')"
proof -
  note st = occult_medium_stage [OF assms(1,2)]
  have "scan_k (set3pt (point o1) (k0 + 1 - 2) (occ1 (start_state st)))
      (set3pt (point o2) (k0 + 1 - 2) (occ2 (start_state st))) = None"
    using assms(3) unfolding st(2,3) medium_k_def .
  from occult_medium_none [OF this, of setime]
  show ?thesis
    unfolding st(1) by (metis start_state_simps(4))
qed

lemma occult_margin:
  assumes "length (point o1) = npts + 2" "coarse_k o1 o2 = Some k0"
    "medium_k o1 o2 st k0 = Some k1" "margin_far o1 o2 st k0 k1"
  shows "\<exists>st'. occult setime o1 o2 st = Some (None, st') \<and> no_contacts (occ st')"
proof -
  note st = occult_medium_stage [OF assms(1,2)]
  have a: "scan_k (set3pt (point o1) (k0 + 1 - 2) (occ1 (start_state st)))
      (set3pt (point o2) (k0 + 1 - 2) (occ2 (start_state st))) = Some k1"
    using assms(3) unfolding st(2,3) medium_k_def .
  have b: "medium_far (set3pt (point o1) (k0 + 1 - 2) (occ1 (start_state st)))
      (set3pt (point o2) (k0 + 1 - 2) (occ2 (start_state st))) k1"
    using assms(4) unfolding st(2,3) margin_far_def .
  from occult_medium_far [OF a b, of setime]
  show ?thesis
    unfolding st(1) by (metis start_state_simps(4))
qed

lemma occult_fine_stage:
  assumes "length (point o1) = npts + 2" "coarse_k o1 o2 = Some k0"
    "medium_k o1 o2 st k0 = Some k1" "\<not> margin_far o1 o2 st k0 k1"
    "fine_recs setime o1 o2 st k0 k1 = (c1, c2)"
  obtains xa xo1 xo2 g d1 d2 d3 where
    "occult setime o1 o2 st =
       occult_fine setime o1 o2 (start_state st) (real (k0 - 1)) (scan_x k1) (1 / 120) d1 d2 d3
         (setpt (medium_rec o1 (occ1 st) k0) (scan_x k1))
         (setpt (medium_rec o2 (occ2 st) k0) (scan_x k1))"
    "resample_loop setime o1 o2 (real (k0 - 1) + (scan_x k1 - 3 * (1 / 120))) (1 / 120) 0 0
       zero_points zero_points (env (start_state st)) = (xa, xo1, xo2, g)"
    "c1 = set3pt xo1 0 (setpt (medium_rec o1 (occ1 st) k0) (scan_x k1))"
    "c2 = set3pt xo2 0 (setpt (medium_rec o2 (occ2 st) k0) (scan_x k1))"
proof -
  note st = occult_medium_stage [OF assms(1,2)]
  have a: "scan_k (set3pt (point o1) (k0 + 1 - 2) (occ1 (start_state st)))
      (set3pt (point o2) (k0 + 1 - 2) (occ2 (start_state st))) = Some k1"
    using assms(3) unfolding st(2,3) medium_k_def .
  have b: "\<not> medium_far (set3pt (point o1) (k0 + 1 - 2) (occ1 (start_state st)))
      (set3pt (point o2) (k0 + 1 - 2) (occ2 (start_state st))) k1"
    using assms(4) unfolding st(2,3) margin_far_def .
  obtain xa xo1 xo2 g where
    r: "resample_loop setime o1 o2 (refined_di k0 k1) (1 / 120) 0 0 zero_points zero_points (env st)
       = (xa, xo1, xo2, g)"
    and c: "c1 = set3pt xo1 0 (setpt (medium_rec o1 (occ1 st) k0) (scan_x k1))"
      "c2 = set3pt xo2 0 (setpt (medium_rec o2 (occ2 st) k0) (scan_x k1))"
    using fine_recs_resample [OF assms(5)] by blast
  show ?thesis
  proof (rule that)
    show "occult setime o1 o2 st =
       occult_fine setime o1 o2 (start_state st) (real (k0 - 1)) (scan_x k1) (1 / 120)
         (sep (medium_rec o1 (occ1 st) k0) (medium_rec o2 (occ2 st) k0) (1 / 120) (k1 - 1))
         (sep (medium_rec o1 (occ1 st) k0) (medium_rec o2 (occ2 st) k0) (1 / 120) k1)
         (sep (medium_rec o1 (occ1 st) k0) (medium_rec o2 (occ2 st) k0) (1 / 120) (k1 + 1))
         (setpt (medium_rec o1 (occ1 st) k0) (scan_x k1))
         (setpt (medium_rec o2 (occ2 st) k0) (scan_x k1))"
      unfolding st(1) using occult_medium_near [OF a b, of setime]
      by (simp add: medium_rec_def)
    show "resample_loop setime o1 o2 (real (k0 - 1) + (scan_x k1 - 3 * (1 / 120))) (1 / 120) 0 0
       zero_points zero_points (env (start_state st)) = (xa, xo1, xo2, g)"
      using r by (simp add: refined_di_def)
  qed (rule c)+
qed

lemma occult_bad2:
  assumes "length (point o1) = npts + 2" "coarse_k o1 o2 = Some k0"
    "medium_k o1 o2 st k0 = Some k1" "\<not> margin_far o1 o2 st k0 k1"
    "fine_k setime o1 o2 st k0 k1 = None"
  shows "\<exists>st'. occult setime o1 o2 st = Some (Some Bad2, st') \<and> no_contacts (occ st')"
proof -
  obtain c1 c2 where fr: "fine_recs setime o1 o2 st k0 k1 = (c1, c2)"
    by (cases "fine_recs setime o1 o2 st k0 k1")
  obtain xa xo1 xo2 g d1 d2 d3 where
    eq: "occult setime o1 o2 st =
       occult_fine setime o1 o2 (start_state st) (real (k0 - 1)) (scan_x k1) (1 / 120) d1 d2 d3
         (setpt (medium_rec o1 (occ1 st) k0) (scan_x k1))
         (setpt (medium_rec o2 (occ2 st) k0) (scan_x k1))"
    and r: "resample_loop setime o1 o2 (real (k0 - 1) + (scan_x k1 - 3 * (1 / 120))) (1 / 120) 0 0
       zero_points zero_points (env (start_state st)) = (xa, xo1, xo2, g)"
    and c: "c1 = set3pt xo1 0 (setpt (medium_rec o1 (occ1 st) k0) (scan_x k1))"
      "c2 = set3pt xo2 0 (setpt (medium_rec o2 (occ2 st) k0) (scan_x k1))"
    using occult_fine_stage [OF assms(1-4) fr] by metis
  have "scan_k c1 c2 = None"
    using assms(5) by (simp add: fine_k_def fr)
  from occult_fine_none [OF r this [unfolded c], of d1 d2 d3]
  show ?thesis
    unfolding eq by (metis start_state_simps(4))
qed

lemma occult_apart:
  assumes "length (point o1) = npts + 2" "coarse_k o1 o2 = Some k0"
    "medium_k o1 o2 st k0 = Some k1" "\<not> margin_far o1 o2 st k0 k1"
    "fine_k setime o1 o2 st k0 k1 = Some k2" "discs_apart setime o1 o2 st k0 k1 k2"
  shows "\<exists>st'. occult setime o1 o2 st = Some (None, st') \<and> no_contacts (occ st')"
proof -
  obtain c1 c2 where fr: "fine_recs setime o1 o2 st k0 k1 = (c1, c2)"
    by (cases "fine_recs setime o1 o2 st k0 k1")
  obtain xa xo1 xo2 g d1 d2 d3 where
    eq: "occult setime o1 o2 st =
       occult_fine setime o1 o2 (start_state st) (real (k0 - 1)) (scan_x k1) (1 / 120) d1 d2 d3
         (setpt (medium_rec o1 (occ1 st) k0) (scan_x k1))
         (setpt (medium_rec o2 (occ2 st) k0) (scan_x k1))"
    and r: "resample_loop setime o1 o2 (real (k0 - 1) + (scan_x k1 - 3 * (1 / 120))) (1 / 120) 0 0
       zero_points zero_points (env (start_state st)) = (xa, xo1, xo2, g)"
    and c: "c1 = set3pt xo1 0 (setpt (medium_rec o1 (occ1 st) k0) (scan_x k1))"
      "c2 = set3pt xo2 0 (setpt (medium_rec o2 (occ2 st) k0) (scan_x k1))"
    using occult_fine_stage [OF assms(1-4) fr] by metis
  have a: "scan_k c1 c2 = Some k2"
    using assms(5) by (simp add: fine_k_def fr)
  have b: "fine_far c1 c2 k2"
    using assms(6) by (simp add: discs_apart_def fr)
  from occult_fine_far [OF r a [unfolded c] b [unfolded c], of d1 d2 d3]
  show ?thesis
    unfolding eq by (metis start_state_simps(4))
qed

lemma occult_contact_stage:
  assumes "length (point o1) = npts + 2" "coarse_k o1 o2 = Some k0"
    "medium_k o1 o2 st k0 = Some k1" "\<not> margin_far o1 o2 st k0 k1"
    "fine_recs setime o1 o2 st k0 k1 = (c1, c2)"
    "fine_k setime o1 o2 st k0 k1 = Some k2" "\<not> discs_apart setime o1 o2 st k0 k1 k2"
  shows "\<exists>st1 di d2. occult setime o1 o2 st =
    occult_contacts st1 di (1 / 7200) (k2 + 1) (scan_x k2) d2
      (setpt c1 (scan_x k2)) (setpt c2 (scan_x k2))"
proof -
  obtain xa xo1 xo2 g d1 d2 d3 where
    eq: "occult setime o1 o2 st =
       occult_fine setime o1 o2 (start_state st) (real (k0 - 1)) (scan_x k1) (1 / 120) d1 d2 d3
         (setpt (medium_rec o1 (occ1 st) k0) (scan_x k1))
         (setpt (medium_rec o2 (occ2 st) k0) (scan_x k1))"
    and r: "resample_loop setime o1 o2 (real (k0 - 1) + (scan_x k1 - 3 * (1 / 120))) (1 / 120) 0 0
       zero_points zero_points (env (start_state st)) = (xa, xo1, xo2, g)"
    and c: "c1 = set3pt xo1 0 (setpt (medium_rec o1 (occ1 st) k0) (scan_x k1))"
      "c2 = set3pt xo2 0 (setpt (medium_rec o2 (occ2 st) k0) (scan_x k1))"
    using occult_fine_stage [OF assms(1-5)] by metis
  have a: "scan_k c1 c2 = Some k2"
    using assms(6) by (simp add: fine_k_def assms(5))
  have b: "\<not> fine_far c1 c2 k2"
    using assms(7) by (simp add: discs_apart_def assms(5))
  from occult_fine_near [OF r a [unfolded c] b [unfolded c], of d1 d2 d3]
  show ?thesis
    unfolding eq c by blast
qed

lemma occult_by_outcome:
  assumes "length (point o1) = npts + 2"
  shows "case outcome_of setime o1 o2 st of
      NoCoarse \<Rightarrow> (\<exists>st'. occult setime o1 o2 st = Some (None, st') \<and> no_contacts (occ st'))
    | NoMedium \<Rightarrow> (\<exists>st'. occult setime o1 o2 st = Some (Some Bad1, st') \<and> no_contacts (occ st'))
    | Margin \<Rightarrow> (\<exists>st'. occult setime o1 o2 st = Some (None, st') \<and> no_contacts (occ st'))
    | NoFine \<Rightarrow> (\<exists>st'. occult setime o1 o2 st = Some (Some Bad2, st') \<and> no_contacts (occ st'))
    | Apart \<Rightarrow> (\<exists>st'. occult setime o1 o2 st = Some (None, st') \<and> no_contacts (occ st'))
    | Contact \<Rightarrow> (occult setime o1 o2 st = None \<or> (\<exists>st'. occult setime o1 o2 st = Some (None, st')))"
proof (cases "coarse_k o1 o2")
  case None
  then show ?thesis
    using occult_coarse_none [OF assms None, of setime st] by (simp add: outcome_of_def)
next
  case k0: (Some k0)
  show ?thesis
  proof (cases "medium_k o1 o2 st k0")
    case None
    then show ?thesis
      using occult_bad1 [OF assms k0 None, of setime] by (simp add: outcome_of_def k0)
  next
    case k1: (Some k1)
    show ?thesis
    proof (cases "margin_far o1 o2 st k0 k1")
      case True
      then show ?thesis
        using occult_margin [OF assms k0 k1 True, of setime] by (simp add: outcome_of_def k0 k1)
    next
      case nf: False
      show ?thesis
      proof (cases "fine_k setime o1 o2 st k0 k1")
        case None
        then show ?thesis
          using occult_bad2 [OF assms k0 k1 nf None] by (simp add: outcome_of_def k0 k1 nf)
      next
        case k2: (Some k2)
        show ?thesis
        proof (cases "discs_apart setime o1 o2 st k0 k1 k2")
          case True
          then show ?thesis
            using occult_apart [OF assms k0 k1 nf k2 True]
            by (simp add: outcome_of_def k0 k1 nf k2)
        next
          case False
          obtain c1 c2 where fr: "fine_recs setime o1 o2 st k0 k1 = (c1, c2)"
            by (cases "fine_recs setime o1 o2 st k0 k1")
          obtain st1 di d2 where "occult setime o1 o2 st =
              occult_contacts st1 di (1 / 7200) (k2 + 1) (scan_x k2) d2
                (setpt c1 (scan_x k2)) (setpt c2 (scan_x k2))"
            using occult_contact_stage [OF assms k0 k1 nf fr k2 False] by blast
          then show ?thesis
            using occult_contacts_nil [of st1 di "1 / 7200" "k2 + 1" "scan_x k2" d2
                "setpt c1 (scan_x k2)" "setpt c2 (scan_x k2)"] False
            by (simp add: outcome_of_def k0 k1 nf k2)
        qed
      qed
    qed
  qed
qed

lemma outcome_iffs:
  "outcome_of setime o1 o2 st = NoCoarse \<longleftrightarrow> coarse_k o1 o2 = None"
  "outcome_of setime o1 o2 st = NoMedium \<longleftrightarrow>
     (\<exists>k0. coarse_k o1 o2 = Some k0 \<and> medium_k o1 o2 st k0 = None)"
  "outcome_of setime o1 o2 st = Margin \<longleftrightarrow>
     (\<exists>k0 k1. coarse_k o1 o2 = Some k0 \<and> medium_k o1 o2 st k0 = Some k1 \<and> margin_far o1 o2 st k0 k1)"
  "outcome_of setime o1 o2 st = NoFine \<longleftrightarrow>
     (\<exists>k0 k1. coarse_k o1 o2 = Some k0 \<and> medium_k o1 o2 st k0 = Some k1 \<and>
        \<not> margin_far o1 o2 st k0 k1 \<and> fine_k setime o1 o2 st k0 k1 = None)"
  "outcome_of setime o1 o2 st = Apart \<longleftrightarrow>
     (\<exists>k0 k1 k2. coarse_k o1 o2 = Some k0 \<and> medium_k o1 o2 st k0 = Some k1 \<and>
        \<not> margin_far o1 o2 st k0 k1 \<and> fine_k setime o1 o2 st k0 k1 = Some k2 \<and>
        discs_apart setime o1 o2 st k0 k1 k2)"
  "outcome_of setime o1 o2 st = Contact \<longleftrightarrow>
     (\<exists>k0 k1 k2. coarse_k o1 o2 = Some k0 \<and> medium_k o1 o2 st k0 = Some k1 \<and>
        \<not> margin_far o1 o2 st k0 k1 \<and> fine_k setime o1 o2 st k0 k1 = Some k2 \<and>
        \<not> discs_apart setime o1 o2 st k0 k1 k2)"
  by (auto simp: outcome_of_def split: option.splits if_splits)

subsection \<open>Occultations: bodies on the equator\<close>

lemma dist_equator:
  assumes "decl2 a = 0" "decl2 b = 0" "0 \<le> ra a - ra b" "ra a - ra b < pi / 2"
  shows "dist_obj a b = (ra a - ra b) / radsec"
proof -
  let ?t = "ra a - ra b"
  have c: "0 < cos ?t"
    using assms(3,4) by (intro cos_gt_zero_pi) simp_all
  have s: "0 \<le> sin ?t"
    using assms(3,4) by (intro sin_ge_zero) simp_all
  have sq: "1 - cos ?t * cos ?t = sin ?t * sin ?t"
    using sin_cos_squared_add [of ?t] by (simp add: power2_eq_square algebra_simps)
  have "0 \<le> sin ?t * sin ?t" by simp
  then have c2: "cos ?t * cos ?t \<le> 1"
    using sq by linarith
  have p: "pyth (cos ?t) = sin ?t"
    using c2 s sq by (simp add: pyth_def Let_def)
  have "atan2 (sin ?t) (cos ?t) = arctan (tan ?t)"
    using c by (simp add: atan2_def tan_def)
  also have "\<dots> = ?t"
    using assms(3,4) by (intro arctan_tan) simp_all
  finally have "atan2 (pyth (cos ?t)) (cos ?t) = ?t"
    by (simp add: p)
  then show ?thesis
    using assms by (simp add: dist_obj_def Let_def)
qed

lemma pinorm_zero [simp]: "pinorm 0 = 0"
  by (rule pinorm_id) simp_all

lemma track_setpt:
  assumes "track a r v"
  shows "ra (act (setpt a x)) = r + x * v" "decl2 (act (setpt a x)) = 0" "semi2 (act (setpt a x)) = 0"
  using assms by (simp_all add: track_def setpt_def Let_def)

lemma track_sepx:
  assumes "track a r v" "track b r' v'" "0 \<le> (r + x * v) - (r' + x * v')"
    "(r + x * v) - (r' + x * v') < pi / 2"
  shows "sepx a b x = ((r + x * v) - (r' + x * v')) / radsec"
  unfolding sepx_def
  using dist_equator [of "act (setpt a x)" "act (setpt b x)"] assms(3,4)
  by (simp add: track_setpt [OF assms(1)] track_setpt [OF assms(2)])

lemma sep_sepx: "sep a b step k = sepx a b (real k * step)"
  by (simp add: sep_def sepx_def)

lemma set3pt_track:
  assumes "decl2 (pts ! i) = 0" "decl2 (pts ! (i + 1)) = 0" "decl2 (pts ! (i + 2)) = 0"
    "semi2 (pts ! i) = 0" "semi2 (pts ! (i + 1)) = 0" "semi2 (pts ! (i + 2)) = 0"
    "ra (pts ! (i + 1)) - ra (pts ! i) = v" "ra (pts ! (i + 2)) - ra (pts ! (i + 1)) = v"
    "- pi \<le> v" "v \<le> pi"
  shows "track (set3pt pts i oc) (ra (pts ! i)) v"
proof -
  have "ra (pts ! i) + ra (pts ! (i + 2)) - 2 * ra (pts ! (i + 1)) = 0"
    using assms(7,8) by simp
  then show ?thesis
    using assms by (simp add: track_def set3pt_def Let_def pinorm_id)
qed

lemma occult_leaves:
  assumes "length (point o1) = npts + 2" "coarse_k o1 o2 = Some k0"
    "medium_k o1 o2 st k0 = Some k1" "\<not> margin_far o1 o2 st k0 k1"
    "fine_k setime o1 o2 st k0 k1 = Some k2" "leaves_discs setime o1 o2 st k0 k1 k2 n m"
  shows "\<exists>st'. occult setime o1 o2 st = Some (None, st')"
proof (cases "discs_apart setime o1 o2 st k0 k1 k2")
  case True
  then show ?thesis
    using occult_apart [OF assms(1-5) True] by blast
next
  case False
  obtain c1 c2 where fr: "fine_recs setime o1 o2 st k0 k1 = (c1, c2)"
    by (cases "fine_recs setime o1 o2 st k0 k1")
  obtain st1 di d2 where eq: "occult setime o1 o2 st =
      occult_contacts st1 di (1 / 7200) (k2 + 1) (scan_x k2) d2
        (setpt c1 (scan_x k2)) (setpt c2 (scan_x k2))"
    using occult_contact_stage [OF assms(1-4) fr assms(5) False] by blast
  have l: "semi2 (act (setpt c1 (scan_x k2))) + semi2 (act (setpt c2 (scan_x k2)))
            < sepx (setpt c1 (scan_x k2)) (setpt c2 (scan_x k2)) (scan_x k2 - 1 / 120 + real (Suc n) / 120)"
    "semi2 (act (setpt c1 (scan_x k2))) + semi2 (act (setpt c2 (scan_x k2)))
            < sepx (setpt c1 (scan_x k2)) (setpt c2 (scan_x k2)) (scan_x k2 - 1 / 120 - real (Suc m) / 120)"
    using assms(6) by (simp_all add: leaves_discs_def fr)
  show ?thesis
    unfolding eq by (rule occult_contacts_returns [OF l])
qed

subsection \<open>Occultations: the sample bodies\<close>

lemma zero_points_eq: "zero_points = replicate 14 (at_ra 0)"
  by (simp add: zero_points_def zero_obj1_def at_ra_def npts_def)

lemma still_point [simp]: "point (still r) = replicate 14 (at_ra r)"
  by (simp add: still_def)

lemma drifting_point [simp]: "point drifting = replicate 14 (at_ra 0)"
  by (simp add: drifting_def zero_points_eq)

lemma at_ra_simps [simp]: "ra (at_ra r) = r" "decl2 (at_ra r) = 0" "semi2 (at_ra r) = 0"
  by (simp_all add: at_ra_def)

lemma first_min3_const:
  assumes "d 0 = c" "d 1 = c" "d 2 = c" "1 < n"
  shows "first_min3 d n = Some 1"
  unfolding first_min3_Some using assms by (simp add: min3_def numeral_2_eq_2)

lemma coarse_const:
  assumes "point o1 = replicate 14 p" "point o2 = replicate 14 q"
  shows "coarse_k o1 o2 = Some 1"
  unfolding coarse_k_def
  by (rule first_min3_const [where c = "dist_obj p q"]) (simp_all add: dseq_def assms npts_def)

lemma medium_rec_const:
  assumes "point ob = replicate 14 (at_ra r)"
  shows "track (medium_rec ob oc 1) r 0"
proof -
  have "track (set3pt (replicate 14 (at_ra r)) 0 oc) (ra (replicate 14 (at_ra r) ! 0)) 0"
    by (rule set3pt_track) simp_all
  then show ?thesis
    by (simp add: medium_rec_def assms)
qed

lemma half_pi_gt_one: "1 \<le> pi / 2"
  using pi_ge_two by simp

lemma sepx_still_tracks:
  assumes "track a r 0" "track b r' 0" "0 \<le> r - r'" "r - r' < 1"
  shows "sepx a b x = (r - r') / radsec"
  using track_sepx [OF assms(1,2), of x] assms(3,4) half_pi_gt_one by simp

lemma scan_k_still_tracks:
  assumes "track a r 0" "track b r' 0" "0 \<le> r - r'" "r - r' < 1"
  shows "scan_k a b = Some 1"
  unfolding scan_k_def
  by (rule first_min3_const [where c = "(r - r') / radsec"])
     (simp_all add: sep_sepx sepx_still_tracks [OF assms])

lemma radsec_pos: "0 < radsec"
  by (simp add: radsec_def radian_def)

lemma resample_3:
  "resample_loop setime o1 o2 di dx 0 x xo1 xo2 g =
     (let g1 = setime (day g + deld * (di + x)) g;
          g2 = f o1 g1;
          g3 = f o2 g2;
          g4 = setime (day g3 + deld * (di + (x + 2 * dx))) g3;
          g5 = f o1 g4;
          g6 = f o2 g5;
          g7 = setime (day g6 + deld * (di + (x + 2 * dx + 2 * dx))) g6;
          g8 = f o1 g7;
          g9 = f o2 g8
      in (x + 2 * dx + 2 * dx + 2 * dx,
          xo1[0 := setobj g2, 1 := setobj g5, 2 := setobj g8],
          xo2[0 := setobj g3, 1 := setobj g6, 2 := setobj g9], g9))"
  apply (subst resample_loop.simps)
  apply (subst resample_loop.simps)
  apply (subst resample_loop.simps)
  apply (subst resample_loop.simps)
  apply (simp add: Let_def numeral_2_eq_2)
  done

lemma refined_di_1_1: "refined_di 1 1 = - (1 / 120)"
  by (simp add: refined_di_def scan_x_def)

lemma resample_drifting:
  "resample_loop clock drifting (still 0) (- (1 / 120)) (1 / 120) 0 0 zero_points zero_points (env rest) =
     (1 / 20,
      zero_points[0 := at_ra (1 / 100 - 1 / 1440), 1 := at_ra (1 / 100 + 1 / 1440),
                  2 := at_ra (1 / 100 + 3 / 1440)],
      zero_points[0 := at_ra 0, 1 := at_ra 0, 2 := at_ra 0],
      (env rest)\<lparr>gst := 3 / 1440\<rparr>)"
  by (simp add: resample_3 Let_def drifting_def still_def clock_def rest_def setobj_def at_ra_def
      deld_def per_def npts_def)

lemma resample_still:
  "resample_loop clock (still 0) (still 0) (- (1 / 120)) (1 / 120) 0 0 zero_points zero_points (env rest) =
     (1 / 20,
      zero_points[0 := at_ra 0, 1 := at_ra 0, 2 := at_ra 0],
      zero_points[0 := at_ra 0, 1 := at_ra 0, 2 := at_ra 0],
      (env rest)\<lparr>gst := 3 / 1440\<rparr>)"
  by (simp add: resample_3 Let_def still_def clock_def rest_def setobj_def at_ra_def
      deld_def per_def npts_def)

lemma track_three:
  assumes "- pi \<le> v" "v \<le> pi"
  shows "track (set3pt (zero_points[0 := at_ra r, 1 := at_ra (r + v), 2 := at_ra (r + v + v)]) 0 oc) r v"
proof -
  let ?pts = "zero_points[0 := at_ra r, 1 := at_ra (r + v), 2 := at_ra (r + v + v)]"
  have n: "?pts ! 0 = at_ra r" "?pts ! (0 + 1) = at_ra (r + v)" "?pts ! (0 + 2) = at_ra (r + v + v)"
    by (simp_all add: zero_points_eq numeral_2_eq_2)
  have "track (set3pt ?pts 0 oc) (ra (?pts ! 0)) v"
    by (rule set3pt_track; (simp only: n at_ra_simps assms)?; simp)
  then show ?thesis
    by (simp only: n at_ra_simps)
qed

lemma small_le_pi: "- pi \<le> 1 / 720" "1 / 720 \<le> pi" "- pi \<le> 0" "0 \<le> pi"
  using pi_ge_two by simp_all

lemma fine_recs_drifting:
  "\<exists>c1 c2. fine_recs clock drifting (still 0) rest 1 1 = (c1, c2) \<and>
     track c1 (1 / 100 - 1 / 1440) (1 / 720) \<and> track c2 0 0"
proof -
  have a: "zero_points[0 := at_ra (1 / 100 - 1 / 1440), 1 := at_ra (1 / 100 + 1 / 1440),
                  2 := at_ra (1 / 100 + 3 / 1440)]
      = zero_points[0 := at_ra (1 / 100 - 1 / 1440), 1 := at_ra (1 / 100 - 1 / 1440 + 1 / 720),
                  2 := at_ra (1 / 100 - 1 / 1440 + 1 / 720 + 1 / 720)]"
    by simp
  have b: "zero_points[0 := at_ra 0, 1 := at_ra 0, 2 := at_ra 0]
      = zero_points[0 := at_ra 0, 1 := at_ra (0 + 0), 2 := at_ra (0 + 0 + 0)]"
    by simp
  show ?thesis
    unfolding fine_recs_def refined_di_1_1 resample_drifting prod.case a
    using track_three [OF small_le_pi(1,2)] track_three [OF small_le_pi(3,4), of 0]
    unfolding b [symmetric] by blast
qed

lemma fine_recs_still:
  "\<exists>c1 c2. fine_recs clock (still 0) (still 0) rest 1 1 = (c1, c2) \<and> track c1 0 0 \<and> track c2 0 0"
proof -
  have b: "zero_points[0 := at_ra 0, 1 := at_ra 0, 2 := at_ra 0]
      = zero_points[0 := at_ra 0, 1 := at_ra (0 + 0), 2 := at_ra (0 + 0 + 0)]"
    by simp
  show ?thesis
    unfolding fine_recs_def refined_di_1_1 resample_still prod.case
    using track_three [OF small_le_pi(3,4), of 0]
    unfolding b [symmetric] by blast
qed

lemma receding_point: "point receding = map (\<lambda>k. at_ra (real (k + 1) / 100)) [0..<14]"
  by (simp add: receding_def)

lemma length_points [simp]:
  "length (point receding) = npts + 2" "length (point (still r)) = npts + 2"
  "length (point drifting) = npts + 2"
  by (simp_all add: receding_point npts_def)

lemma dseq_receding:
  assumes "k < 14"
  shows "dseq (point receding) (point (still 0)) k = (real (k + 1) / 100) / radsec"
proof -
  have a: "point receding ! k = at_ra (real (k + 1) / 100)"
    using assms unfolding receding_point by simp
  have b: "point (still 0) ! k = at_ra 0"
    using assms by simp
  have "real (k + 1) / 100 < 1"
    using assms by simp
  then have c: "real (k + 1) / 100 < pi / 2"
    using half_pi_gt_one by linarith
  show ?thesis
    unfolding dseq_def a b
    using dist_equator [of "at_ra (real (k + 1) / 100)" "at_ra 0"] c by simp
qed

lemma coarse_receding: "coarse_k receding (still 0) = None"
  unfolding coarse_k_def first_min3_None
proof (intro allI impI)
  fix j :: nat
  assume "1 \<le> j \<and> j < npts + 1"
  then have j: "1 \<le> j" "j < 13"
    by (simp_all add: npts_def)
  have "real (j - 1 + 1) / 100 / radsec < real (j + 1) / 100 / radsec"
    using j radsec_pos by (intro divide_strict_right_mono) simp_all
  then have "dseq (point receding) (point (still 0)) (j - 1) < dseq (point receding) (point (still 0)) j"
    using dseq_receding [of j] dseq_receding [of "j - 1"] j by simp
  then show "\<not> min3 (dseq (point receding) (point (still 0))) j"
    unfolding min3_def by simp
qed

lemma coarse_still: "coarse_k (still r) (still r') = Some 1"
  by (rule coarse_const) simp_all

lemma coarse_drifting: "coarse_k drifting (still 0) = Some 1"
  by (rule coarse_const) simp_all

lemma medium_rec_still: "track (medium_rec (still r) oc 1) r 0"
  by (rule medium_rec_const) simp

lemma medium_rec_drifting: "track (medium_rec drifting oc 1) 0 0"
  by (rule medium_rec_const) simp

lemma medium_still_half: "medium_k (still (1 / 2)) (still 0) rest 1 = Some 1"
  unfolding medium_k_def
  by (rule scan_k_still_tracks [OF medium_rec_still medium_rec_still]) simp_all

lemma medium_still_zero: "medium_k (still 0) (still 0) rest 1 = Some 1"
  unfolding medium_k_def
  by (rule scan_k_still_tracks [OF medium_rec_still medium_rec_still]) simp_all

lemma medium_drifting: "medium_k drifting (still 0) rest 1 = Some 1"
  unfolding medium_k_def
  by (rule scan_k_still_tracks [OF medium_rec_drifting medium_rec_still]) simp_all

lemma far_tracks:
  assumes "track a r 0" "track b r' 0" "0 \<le> r - r'" "r - r' < 1"
  shows "medium_far a b k \<longleftrightarrow> 50 < (r - r') / radsec"
    and "fine_far a b k \<longleftrightarrow> 0 < (r - r') / radsec"
  unfolding medium_far_def fine_far_def sep_sepx sepx_still_tracks [OF assms]
  by (simp_all add: track_setpt [OF assms(1)] track_setpt [OF assms(2)])

lemma half_radsec: "50 < (1 / 2) / radsec"
proof -
  have "50 * pi < 324000"
    using pi_less_4 by simp
  then show ?thesis
    by (simp add: radsec_def radian_def field_simps)
qed

lemma margin_still_half: "margin_far (still (1 / 2)) (still 0) rest 1 1"
  unfolding margin_far_def
  using far_tracks(1) [OF medium_rec_still medium_rec_still, of "1 / 2" 0] half_radsec by simp

lemma margin_still_zero: "\<not> margin_far (still 0) (still 0) rest 1 1"
  unfolding margin_far_def
  using far_tracks(1) [OF medium_rec_still medium_rec_still, of 0 0] by simp

lemma margin_drifting: "\<not> margin_far drifting (still 0) rest 1 1"
  unfolding margin_far_def
  using far_tracks(1) [OF medium_rec_drifting medium_rec_still, of 0] by simp

lemma scan_k_moving:
  assumes "track a r v" "track b r' 0" "0 < v" "0 \<le> r - r'" "r - r' + 2 * v < 1"
  shows "scan_k a b = None"
  unfolding scan_k_def first_min3_None
proof (intro allI impI)
  fix j :: nat
  assume "1 \<le> j \<and> j < 240"
  then have j: "1 \<le> j" "j \<le> 240" "j - 1 \<le> 240"
    by arith+
  have s: "sep a b (1 / 120) k = (r - r' + real k * (1 / 120) * v) / radsec" if "k \<le> 240" for k
  proof -
    have "real k * (1 / 120) \<le> 2"
      using that by simp
    then have "real k * (1 / 120) * v \<le> 2 * v"
      using assms(3) by (intro mult_right_mono) simp_all
    moreover have "0 \<le> real k * (1 / 120) * v"
      using assms(3) by simp
    ultimately have "0 \<le> r - r' + real k * (1 / 120) * v" "r - r' + real k * (1 / 120) * v < pi / 2"
      using assms(4,5) half_pi_gt_one by linarith+
    then show ?thesis
      unfolding sep_sepx
      using track_sepx [OF assms(1,2), of "real k * (1 / 120)"] by (simp add: algebra_simps)
  qed
  have "real (j - 1) < real j"
    using j(1) by simp
  then have "real (j - 1) * (1 / 120) * v < real j * (1 / 120) * v"
    using assms(3) by (intro mult_strict_right_mono) simp_all
  then have "(r - r' + real (j - 1) * (1 / 120) * v) / radsec < (r - r' + real j * (1 / 120) * v) / radsec"
    using radsec_pos by (intro divide_strict_right_mono) simp_all
  then show "\<not> min3 (sep a b (1 / 120)) j"
    unfolding min3_def s [OF j(2)] s [OF j(3)] by simp
qed

lemma fine_drifting: "fine_k clock drifting (still 0) rest 1 1 = None"
proof -
  obtain c1 c2 where c: "fine_recs clock drifting (still 0) rest 1 1 = (c1, c2)"
    "track c1 (1 / 100 - 1 / 1440) (1 / 720)" "track c2 0 0"
    using fine_recs_drifting by blast
  have "scan_k c1 c2 = None"
    by (rule scan_k_moving [OF c(2,3)]) simp_all
  then show ?thesis
    unfolding fine_k_def c(1) prod.case .
qed

lemma fine_still: "fine_k clock (still 0) (still 0) rest 1 1 = Some 1"
proof -
  obtain c1 c2 where c: "fine_recs clock (still 0) (still 0) rest 1 1 = (c1, c2)"
    "track c1 0 0" "track c2 0 0"
    using fine_recs_still by blast
  have "scan_k c1 c2 = Some 1"
    by (rule scan_k_still_tracks [OF c(2,3)]) simp_all
  then show ?thesis
    unfolding fine_k_def c(1) prod.case .
qed

lemma touching_still: "\<not> discs_apart clock (still 0) (still 0) rest 1 1 1"
proof -
  obtain c1 c2 where c: "fine_recs clock (still 0) (still 0) rest 1 1 = (c1, c2)"
    "track c1 0 0" "track c2 0 0"
    using fine_recs_still by blast
  show ?thesis
    unfolding discs_apart_def c(1) prod.case
    using far_tracks(2) [OF c(2,3), of 1] by simp
qed

lemma occult_still_diverges: "occult clock (still 0) (still 0) rest = None"
proof -
  obtain c1 c2 where c: "fine_recs clock (still 0) (still 0) rest 1 1 = (c1, c2)"
    "track c1 0 0" "track c2 0 0"
    using fine_recs_still by blast
  obtain st1 di d2 where eq: "occult clock (still 0) (still 0) rest =
      occult_contacts st1 di (1 / 7200) (1 + 1) (scan_x 1) d2 (setpt c1 (scan_x 1)) (setpt c2 (scan_x 1))"
    using occult_contact_stage [OF length_points(2) coarse_still medium_still_zero margin_still_zero
        c(1) fine_still touching_still] by blast
  have "sepx c1 c2 y = 0" for y
    using sepx_still_tracks [OF c(2,3), of y] by simp
  then have "\<forall>y. dist_obj (act (setpt (setpt c1 (scan_x 1)) y)) (act (setpt (setpt c2 (scan_x 1)) y))
      \<le> semi2 (act (setpt c1 (scan_x 1))) + semi2 (act (setpt c2 (scan_x 1)))"
    by (simp add: sepx_def track_setpt [OF c(2)] track_setpt [OF c(3)])
  then show ?thesis
    unfolding eq by (rule occult_contacts_diverges)
qed

subsection \<open>Occultations: the medium pass after a coarse minimum\<close>

text \<open>
  \<open>pinorm\<close> changes an angle by whole turns, and the separation of two samples does
  not change when their angles change by whole turns. So the quadratics that \<open>set3pt\<close>
  puts through three samples give, at \<open>x = 0, 1, 2\<close>, the separations of the
  samples themselves; the middle one is not above the outer two, and the medium pass
  finds an interior 3-point minimum.
\<close>

lemma pinorm_up_turns: "\<exists>k::int. pinorm_up a = a + of_int k * (2 * pi)"
proof (induction a rule: pinorm_up.induct)
  case (1 a)
  show ?case
  proof (cases "a < - pi")
    case True
    then obtain k :: int where "pinorm_up (a + pipi) = a + pipi + of_int k * (2 * pi)"
      using 1 by blast
    then have "pinorm_up a = a + of_int (k + 1) * (2 * pi)"
      using True by (simp add: pinorm_up.simps [of a] pipi_def algebra_simps)
    then show ?thesis by blast
  next
    case False
    then have "pinorm_up a = a + of_int 0 * (2 * pi)"
      by (simp add: pinorm_up.simps [of a])
    then show ?thesis by blast
  qed
qed

lemma pinorm_down_turns: "\<exists>k::int. pinorm_down a = a + of_int k * (2 * pi)"
proof (induction a rule: pinorm_down.induct)
  case (1 a)
  show ?case
  proof (cases "a > pi")
    case True
    then obtain k :: int where "pinorm_down (a - pipi) = a - pipi + of_int k * (2 * pi)"
      using 1 by blast
    then have "pinorm_down a = a + of_int (k - 1) * (2 * pi)"
      using True by (simp add: pinorm_down.simps [of a] pipi_def algebra_simps)
    then show ?thesis by blast
  next
    case False
    then have "pinorm_down a = a + of_int 0 * (2 * pi)"
      by (simp add: pinorm_down.simps [of a])
    then show ?thesis by blast
  qed
qed

lemma pinorm_turns: "\<exists>k::int. pinorm a = a + of_int k * (2 * pi)"
proof -
  obtain k :: int where k: "pinorm_up a = a + of_int k * (2 * pi)"
    using pinorm_up_turns by blast
  obtain m :: int where m: "pinorm_down (pinorm_up a) = pinorm_up a + of_int m * (2 * pi)"
    using pinorm_down_turns by blast
  have "pinorm a = a + of_int (k + m) * (2 * pi)"
    unfolding pinorm_def m unfolding k by (simp add: algebra_simps)
  then show ?thesis by blast
qed

lemma turns_sin_cos: "sin (of_int k * (2 * pi)) = 0" "cos (of_int k * (2 * pi)) = 1"
  using sin_int_2pin [of k] cos_int_2pin [of k] by (simp_all add: mult.commute)

lemma sin_turns: "sin (x + of_int k * (2 * pi)) = sin x"
  by (simp add: sin_add turns_sin_cos)

lemma cos_turns: "cos (x + of_int k * (2 * pi)) = cos x"
  by (simp add: cos_add turns_sin_cos)

lemma dist_obj_turns:
  assumes "ra p = ra p' + of_int k1 * (2 * pi)" "decl2 p = decl2 p' + of_int k2 * (2 * pi)"
    "ra q = ra q' + of_int m1 * (2 * pi)" "decl2 q = decl2 q' + of_int m2 * (2 * pi)"
  shows "dist_obj p q = dist_obj p' q'"
proof -
  have "ra p - ra q = (ra p' - ra q') + of_int (k1 - m1) * (2 * pi)"
    by (simp add: assms algebra_simps)
  then have c: "cos (ra p - ra q) = cos (ra p' - ra q')"
    by (simp only: cos_turns)
  show ?thesis
    unfolding dist_obj_def c by (simp only: assms(2,4) sin_turns cos_turns)
qed

lemma set3pt_act:
  "ra (act (setpt (set3pt pts i oc) x)) =
     ra (pts ! i) + x * pinorm (ra (pts ! (i + 1)) - ra (pts ! i))
       + x * (x - 1) * (pinorm (ra (pts ! i) + ra (pts ! (i + 2)) - 2 * ra (pts ! (i + 1))) / 2)"
  "decl2 (act (setpt (set3pt pts i oc) x)) =
     decl2 (pts ! i) + x * pinorm (decl2 (pts ! (i + 1)) - decl2 (pts ! i))
       + x * (x - 1) * (pinorm (decl2 (pts ! i) + decl2 (pts ! (i + 2)) - 2 * decl2 (pts ! (i + 1))) / 2)"
  by (simp_all add: setpt_def set3pt_def Let_def)

lemma set3pt_through:
  "\<exists>k m :: int. ra (act (setpt (set3pt pts i oc) 0)) = ra (pts ! i) + of_int k * (2 * pi) \<and>
           decl2 (act (setpt (set3pt pts i oc) 0)) = decl2 (pts ! i) + of_int m * (2 * pi)"
  "\<exists>k m :: int. ra (act (setpt (set3pt pts i oc) 1)) = ra (pts ! (i + 1)) + of_int k * (2 * pi) \<and>
           decl2 (act (setpt (set3pt pts i oc) 1)) = decl2 (pts ! (i + 1)) + of_int m * (2 * pi)"
  "\<exists>k m :: int. ra (act (setpt (set3pt pts i oc) 2)) = ra (pts ! (i + 2)) + of_int k * (2 * pi) \<and>
           decl2 (act (setpt (set3pt pts i oc) 2)) = decl2 (pts ! (i + 2)) + of_int m * (2 * pi)"
proof -
  let ?p1 = "pts ! i" and ?p2 = "pts ! (i + 1)" and ?p3 = "pts ! (i + 2)"
  obtain k1 :: int where k1: "pinorm (ra ?p2 - ra ?p1) = ra ?p2 - ra ?p1 + of_int k1 * (2 * pi)"
    using pinorm_turns by blast
  obtain k2 :: int where k2: "pinorm (ra ?p1 + ra ?p3 - 2 * ra ?p2)
      = ra ?p1 + ra ?p3 - 2 * ra ?p2 + of_int k2 * (2 * pi)"
    using pinorm_turns by blast
  obtain m1 :: int where m1: "pinorm (decl2 ?p2 - decl2 ?p1) = decl2 ?p2 - decl2 ?p1 + of_int m1 * (2 * pi)"
    using pinorm_turns by blast
  obtain m2 :: int where m2: "pinorm (decl2 ?p1 + decl2 ?p3 - 2 * decl2 ?p2)
      = decl2 ?p1 + decl2 ?p3 - 2 * decl2 ?p2 + of_int m2 * (2 * pi)"
    using pinorm_turns by blast
  have "ra (act (setpt (set3pt pts i oc) 0)) = ra ?p1 + of_int 0 * (2 * pi) \<and>
        decl2 (act (setpt (set3pt pts i oc) 0)) = decl2 ?p1 + of_int 0 * (2 * pi)"
    unfolding set3pt_act by simp
  then show "\<exists>k m :: int. ra (act (setpt (set3pt pts i oc) 0)) = ra ?p1 + of_int k * (2 * pi) \<and>
           decl2 (act (setpt (set3pt pts i oc) 0)) = decl2 ?p1 + of_int m * (2 * pi)"
    by blast
  have "ra (act (setpt (set3pt pts i oc) 1)) = ra ?p2 + of_int k1 * (2 * pi) \<and>
        decl2 (act (setpt (set3pt pts i oc) 1)) = decl2 ?p2 + of_int m1 * (2 * pi)"
    unfolding set3pt_act k1 k2 m1 m2 by simp
  then show "\<exists>k m :: int. ra (act (setpt (set3pt pts i oc) 1)) = ra ?p2 + of_int k * (2 * pi) \<and>
           decl2 (act (setpt (set3pt pts i oc) 1)) = decl2 ?p2 + of_int m * (2 * pi)"
    by blast
  have "ra (act (setpt (set3pt pts i oc) 2)) = ra ?p3 + of_int (2 * k1 + k2) * (2 * pi) \<and>
        decl2 (act (setpt (set3pt pts i oc) 2)) = decl2 ?p3 + of_int (2 * m1 + m2) * (2 * pi)"
    unfolding set3pt_act k1 k2 m1 m2 by (simp add: field_simps)
  then show "\<exists>k m :: int. ra (act (setpt (set3pt pts i oc) 2)) = ra ?p3 + of_int k * (2 * pi) \<and>
           decl2 (act (setpt (set3pt pts i oc) 2)) = decl2 ?p3 + of_int m * (2 * pi)"
    by blast
qed

lemma dist_obj_same:
  assumes "\<exists>k m :: int. ra p = ra p' + of_int k * (2 * pi) \<and> decl2 p = decl2 p' + of_int m * (2 * pi)"
    "\<exists>k m :: int. ra q = ra q' + of_int k * (2 * pi) \<and> decl2 q = decl2 q' + of_int m * (2 * pi)"
  shows "dist_obj p q = dist_obj p' q'"
proof -
  obtain k1 k2 :: int where p: "ra p = ra p' + of_int k1 * (2 * pi)" "decl2 p = decl2 p' + of_int k2 * (2 * pi)"
    using assms(1) by blast
  obtain m1 m2 :: int where q: "ra q = ra q' + of_int m1 * (2 * pi)" "decl2 q = decl2 q' + of_int m2 * (2 * pi)"
    using assms(2) by blast
  show ?thesis
    by (rule dist_obj_turns [OF p q])
qed

lemma sep_through:
  "sep (set3pt p i oc) (set3pt q i oc') (1 / 120) 0 = dseq p q i"
  "sep (set3pt p i oc) (set3pt q i oc') (1 / 120) 120 = dseq p q (i + 1)"
  "sep (set3pt p i oc) (set3pt q i oc') (1 / 120) 240 = dseq p q (i + 2)"
proof -
  have x: "real 0 * (1 / 120) = 0" "real 120 * (1 / 120) = 1" "real 240 * (1 / 120) = 2"
    by simp_all
  show "sep (set3pt p i oc) (set3pt q i oc') (1 / 120) 0 = dseq p q i"
    unfolding sep_def dseq_def x by (rule dist_obj_same [OF set3pt_through(1) set3pt_through(1)])
  show "sep (set3pt p i oc) (set3pt q i oc') (1 / 120) 120 = dseq p q (i + 1)"
    unfolding sep_def dseq_def x by (rule dist_obj_same [OF set3pt_through(2) set3pt_through(2)])
  show "sep (set3pt p i oc) (set3pt q i oc') (1 / 120) 240 = dseq p q (i + 2)"
    unfolding sep_def dseq_def x by (rule dist_obj_same [OF set3pt_through(3) set3pt_through(3)])
qed

lemma min3_between:
  assumes "0 < m" "m < n" "d m \<le> d 0" "d m \<le> d n"
  shows "\<exists>k. 1 \<le> k \<and> k < n \<and> min3 d k"
proof -
  have "finite (d ` {1..<n})" "d ` {1..<n} \<noteq> {}"
    using assms(1,2) by auto
  then have "Min (d ` {1..<n}) \<in> d ` {1..<n}"
    by (rule Min_in)
  then obtain k where k: "1 \<le> k" "k < n" "d k = Min (d ` {1..<n})"
    by auto
  have le: "d k \<le> d j" if "1 \<le> j" "j < n" for j
    using that k(3) by simp
  have "d k \<le> d m"
    using le assms(1,2) by simp
  have "d k \<le> d (k - 1)"
  proof (cases "k = 1")
    case True
    then show ?thesis using \<open>d k \<le> d m\<close> assms(3) by simp
  next
    case False
    then show ?thesis using le [of "k - 1"] k(1,2) by simp
  qed
  moreover have "d k \<le> d (k + 1)"
  proof (cases "k + 1 = n")
    case True
    then show ?thesis using \<open>d k \<le> d m\<close> assms(4) by simp
  next
    case False
    then show ?thesis using le [of "k + 1"] k(2) by simp
  qed
  ultimately show ?thesis
    using k(1,2) unfolding min3_def by blast
qed

lemma medium_finds:
  assumes "coarse_k o1 o2 = Some k0"
  shows "medium_k o1 o2 st k0 \<noteq> None"
proof -
  let ?d = "dseq (point o1) (point o2)"
  let ?s = "sep (medium_rec o1 (occ1 st) k0) (medium_rec o2 (occ2 st) k0) (1 / 120)"
  have k: "1 \<le> k0" "min3 ?d k0"
    using assms unfolding coarse_k_def first_min3_Some by simp_all
  have i: "k0 - 1 + 1 = k0" "k0 - 1 + 2 = k0 + 1"
    using k(1) by simp_all
  have s: "?s 0 = ?d (k0 - 1)" "?s 120 = ?d k0" "?s 240 = ?d (k0 + 1)"
    unfolding medium_rec_def
    using sep_through [of "point o1" "k0 - 1" "occ1 st" "point o2" "occ2 st"] unfolding i by blast+
  have "?s 120 \<le> ?s 0" "?s 120 \<le> ?s 240"
    using k(2) unfolding s min3_def by simp_all
  then have "\<exists>k. 1 \<le> k \<and> k < 240 \<and> min3 ?s k"
    by (intro min3_between [of 120]) simp_all
  then show ?thesis
    unfolding medium_k_def scan_k_def first_min3_None by blast
qed

subsection \<open>Occultations: no event and the refinement errors\<close>

text \<open>
  Claim C3. \<open>occult\<close> begins by setting the five contact times to -100, and it
  returns \<open>nil\<close> with all five still at -100 whenever no index of the coarse samples
  is a 3-point minimum of the separation, or the minimum separation of the medium
  pass exceeds the sum of the two interpolated semidiameters by more than 50
  arcseconds. The bodies carry the 14 samples of the program.
\<close>

theorem occult_no_event:
  assumes "length (point o1) = npts + 2" "length (point o2) = npts + 2"
  shows "coarse_k o1 o2 = None \<or>
      (\<exists>k0 k1. coarse_k o1 o2 = Some k0 \<and> medium_k o1 o2 st k0 = Some k1 \<and> margin_far o1 o2 st k0 k1)
    \<longrightarrow> (\<exists>st'. occult setime o1 o2 st = Some (None, st') \<and>
          t1 (occ st') = - 100 \<and> t2 (occ st') = - 100 \<and> t3 (occ st') = - 100 \<and>
          t4 (occ st') = - 100 \<and> t5 (occ st') = - 100)"
proof
  assume "coarse_k o1 o2 = None \<or>
      (\<exists>k0 k1. coarse_k o1 o2 = Some k0 \<and> medium_k o1 o2 st k0 = Some k1 \<and> margin_far o1 o2 st k0 k1)"
  then have "\<exists>st'. occult setime o1 o2 st = Some (None, st') \<and> no_contacts (occ st')"
    using occult_coarse_none [OF assms(1), of o2 setime st] occult_margin [OF assms(1), of o2 _ st _ setime]
    by blast
  then show "\<exists>st'. occult setime o1 o2 st = Some (None, st') \<and>
          t1 (occ st') = - 100 \<and> t2 (occ st') = - 100 \<and> t3 (occ st') = - 100 \<and>
          t4 (occ st') = - 100 \<and> t5 (occ st') = - 100"
    by (simp add: no_contacts_def)
qed

text \<open>
  Both exits are taken: \<open>receding\<close> moves away from \<open>still 0\<close> through all the
  samples, so the coarse pass finds no minimum; \<open>still (1/2)\<close> stays half a radian from
  \<open>still 0\<close>, far more than 50 arcseconds.
\<close>

theorem occult_no_event_witness:
  "coarse_k receding (still 0) = None \<and>
   (\<exists>st'. occult clock receding (still 0) rest = Some (None, st') \<and>
      t1 (occ st') = - 100 \<and> t2 (occ st') = - 100 \<and> t3 (occ st') = - 100 \<and>
      t4 (occ st') = - 100 \<and> t5 (occ st') = - 100) \<and>
   coarse_k (still (1 / 2)) (still 0) = Some 1 \<and>
   medium_k (still (1 / 2)) (still 0) rest 1 = Some 1 \<and>
   margin_far (still (1 / 2)) (still 0) rest 1 1 \<and>
   (\<exists>st'. occult clock (still (1 / 2)) (still 0) rest = Some (None, st') \<and>
      t1 (occ st') = - 100 \<and> t2 (occ st') = - 100 \<and> t3 (occ st') = - 100 \<and>
      t4 (occ st') = - 100 \<and> t5 (occ st') = - 100)"
  using occult_no_event [OF length_points(1) length_points(2), of 0 rest clock]
    occult_no_event [OF length_points(2) length_points(2), of "1 / 2" 0 rest clock]
    coarse_receding coarse_still [of "1 / 2" 0] medium_still_half margin_still_half
  by blast

lemma occult_outcomes:
  assumes "length (point o1) = npts + 2" "length (point o2) = npts + 2"
  shows
    "((\<exists>st'. occult setime o1 o2 st = Some (Some Bad1, st')) \<longleftrightarrow>
        (\<exists>k0. coarse_k o1 o2 = Some k0 \<and> medium_k o1 o2 st k0 = None)) \<and>
     ((\<exists>st'. occult setime o1 o2 st = Some (Some Bad2, st')) \<longleftrightarrow>
        (\<exists>k0 k1. coarse_k o1 o2 = Some k0 \<and> medium_k o1 o2 st k0 = Some k1 \<and>
           \<not> margin_far o1 o2 st k0 k1 \<and> fine_k setime o1 o2 st k0 k1 = None)) \<and>
     (\<forall>r st'. occult setime o1 o2 st = Some (r, st') \<longrightarrow> r = None \<or> r = Some Bad1 \<or> r = Some Bad2) \<and>
     (coarse_k o1 o2 = None \<or>
      (\<exists>k0 k1. coarse_k o1 o2 = Some k0 \<and> medium_k o1 o2 st k0 = Some k1 \<and>
         (margin_far o1 o2 st k0 k1 \<or>
          (\<exists>k2. fine_k setime o1 o2 st k0 k1 = Some k2 \<and>
             (discs_apart setime o1 o2 st k0 k1 k2 \<or>
              (\<exists>n m. leaves_discs setime o1 o2 st k0 k1 k2 n m)))))
      \<longrightarrow> (\<exists>st'. occult setime o1 o2 st = Some (None, st')))"
proof -
  note oc = occult_by_outcome [OF assms(1), of setime o2 st]
  note oi = outcome_iffs [of setime o1 o2 st]
  have bad1: "(\<exists>st'. occult setime o1 o2 st = Some (Some Bad1, st')) \<longleftrightarrow>
      outcome_of setime o1 o2 st = NoMedium"
    using oc by (cases "outcome_of setime o1 o2 st") auto
  have bad2: "(\<exists>st'. occult setime o1 o2 st = Some (Some Bad2, st')) \<longleftrightarrow>
      outcome_of setime o1 o2 st = NoFine"
    using oc by (cases "outcome_of setime o1 o2 st") auto
  have others: "\<forall>r st'. occult setime o1 o2 st = Some (r, st') \<longrightarrow>
      r = None \<or> r = Some Bad1 \<or> r = Some Bad2"
    using oc by (cases "outcome_of setime o1 o2 st") auto
  have nil: "\<exists>st'. occult setime o1 o2 st = Some (None, st')"
    if h: "coarse_k o1 o2 = None \<or>
      (\<exists>k0 k1. coarse_k o1 o2 = Some k0 \<and> medium_k o1 o2 st k0 = Some k1 \<and>
         (margin_far o1 o2 st k0 k1 \<or>
          (\<exists>k2. fine_k setime o1 o2 st k0 k1 = Some k2 \<and>
             (discs_apart setime o1 o2 st k0 k1 k2 \<or>
              (\<exists>n m. leaves_discs setime o1 o2 st k0 k1 k2 n m)))))"
  proof -
    have a: ?thesis if "coarse_k o1 o2 = None"
      using occult_coarse_none [OF assms(1) that, of setime st] by blast
    have b: ?thesis
      if k: "coarse_k o1 o2 = Some k0" "medium_k o1 o2 st k0 = Some k1"
        and d: "margin_far o1 o2 st k0 k1 \<or>
          (\<exists>k2. fine_k setime o1 o2 st k0 k1 = Some k2 \<and>
             (discs_apart setime o1 o2 st k0 k1 k2 \<or>
              (\<exists>n m. leaves_discs setime o1 o2 st k0 k1 k2 n m)))" for k0 k1
    proof (cases "margin_far o1 o2 st k0 k1")
      case True
      then show ?thesis
        using occult_margin [OF assms(1) k True, of setime] by blast
    next
      case False
      then obtain k2 where k2: "fine_k setime o1 o2 st k0 k1 = Some k2"
        and c: "discs_apart setime o1 o2 st k0 k1 k2 \<or>
              (\<exists>n m. leaves_discs setime o1 o2 st k0 k1 k2 n m)"
        using d by blast
      from c show ?thesis
      proof
        assume "discs_apart setime o1 o2 st k0 k1 k2"
        then show ?thesis
          using occult_apart [OF assms(1) k False k2] by blast
      next
        assume "\<exists>n m. leaves_discs setime o1 o2 st k0 k1 k2 n m"
        then obtain n m where "leaves_discs setime o1 o2 st k0 k1 k2 n m" by blast
        then show ?thesis
          using occult_leaves [OF assms(1) k False k2] by blast
      qed
    qed
    show ?thesis
      using h a b by blast
  qed
  show ?thesis
    using bad1 bad2 others nil unfolding oi by blast
qed

text \<open>
  Claim C2, as the code has it. After a coarse minimum the medium pass always finds
  an interior 3-point minimum, so \<open>occult\<close> does not return the error "bad 1". It
  returns an error exactly when the coarse and the medium pass find a minimum, the
  medium minimum is within the 50 arcsecond margin, and the fine pass after the
  re-sampling finds no interior 3-point minimum; the error is then "bad 2". It returns
  \<open>nil\<close> when the coarse pass finds no minimum, when the medium minimum is beyond the
  margin, when the fine minimum exceeds the sum of the semidiameters, and when the
  separation exceeds that sum some steps after and some steps before the fine minimum,
  which is where the two contact loops stop. The contact loops have no other exit: the
  claim's "in every other case \<open>occult\<close> returns \<open>nil\<close>" holds of the calls that
  return.
\<close>

theorem occult_errors:
  assumes "length (point o1) = npts + 2" "length (point o2) = npts + 2"
  shows
    "(\<forall>k0. coarse_k o1 o2 = Some k0 \<longrightarrow> medium_k o1 o2 st k0 \<noteq> None) \<and>
     (\<nexists>st'. occult setime o1 o2 st = Some (Some Bad1, st')) \<and>
     ((\<exists>e st'. occult setime o1 o2 st = Some (Some e, st')) \<longleftrightarrow>
        (\<exists>k0 k1. coarse_k o1 o2 = Some k0 \<and> medium_k o1 o2 st k0 = Some k1 \<and>
           \<not> margin_far o1 o2 st k0 k1 \<and> fine_k setime o1 o2 st k0 k1 = None)) \<and>
     (\<forall>r st'. occult setime o1 o2 st = Some (r, st') \<longrightarrow> r = None \<or> r = Some Bad2) \<and>
     (coarse_k o1 o2 = None \<or>
      (\<exists>k0 k1. coarse_k o1 o2 = Some k0 \<and> medium_k o1 o2 st k0 = Some k1 \<and>
         (margin_far o1 o2 st k0 k1 \<or>
          (\<exists>k2. fine_k setime o1 o2 st k0 k1 = Some k2 \<and>
             (discs_apart setime o1 o2 st k0 k1 k2 \<or>
              (\<exists>n m. leaves_discs setime o1 o2 st k0 k1 k2 n m)))))
      \<longrightarrow> (\<exists>st'. occult setime o1 o2 st = Some (None, st')))"
proof -
  note oc = occult_outcomes [OF assms, of setime st]
  have m: "\<forall>k0. coarse_k o1 o2 = Some k0 \<longrightarrow> medium_k o1 o2 st k0 \<noteq> None"
    using medium_finds [of o1 o2 _ st] by blast
  have b1: "\<nexists>st'. occult setime o1 o2 st = Some (Some Bad1, st')"
    using oc m by blast
  have only: "\<forall>r st'. occult setime o1 o2 st = Some (r, st') \<longrightarrow> r = None \<or> r = Some Bad2"
    using oc b1 by blast
  have "(\<exists>e st'. occult setime o1 o2 st = Some (Some e, st')) \<longleftrightarrow>
      (\<exists>st'. occult setime o1 o2 st = Some (Some Bad2, st'))"
    using only by blast
  then have err: "(\<exists>e st'. occult setime o1 o2 st = Some (Some e, st')) \<longleftrightarrow>
        (\<exists>k0 k1. coarse_k o1 o2 = Some k0 \<and> medium_k o1 o2 st k0 = Some k1 \<and>
           \<not> margin_far o1 o2 st k0 k1 \<and> fine_k setime o1 o2 st k0 k1 = None)"
    using oc by blast
  show ?thesis
    using m b1 err only oc by blast
qed

text \<open>
  With \<open>clock\<close> for \<open>setime\<close>, the new samples of \<open>drifting\<close> move away from
  \<open>still 0\<close>, the fine pass finds no minimum, and the error is "bad 2"; \<open>still (1/2)\<close>
  and \<open>still 0\<close> give \<open>nil\<close>.
\<close>

theorem occult_errors_witness:
  "coarse_k drifting (still 0) = Some 1 \<and> medium_k drifting (still 0) rest 1 = Some 1 \<and>
   medium_k drifting (still 0) rest 1 \<noteq> None \<and>
   \<not> margin_far drifting (still 0) rest 1 1 \<and> fine_k clock drifting (still 0) rest 1 1 = None \<and>
   (\<exists>st'. occult clock drifting (still 0) rest = Some (Some Bad2, st')) \<and>
   (\<nexists>st'. occult clock drifting (still 0) rest = Some (Some Bad1, st')) \<and>
   margin_far (still (1 / 2)) (still 0) rest 1 1 \<and>
   (\<exists>st'. occult clock (still (1 / 2)) (still 0) rest = Some (None, st'))"
proof -
  note a = occult_errors [OF length_points(3) length_points(2), of 0 rest clock]
  note b = occult_errors [OF length_points(2) length_points(2), of "1 / 2" 0 rest clock]
  have "\<exists>e st'. occult clock drifting (still 0) rest = Some (Some e, st')"
    using a coarse_drifting medium_drifting margin_drifting fine_drifting by blast
  then have 1: "\<exists>st'. occult clock drifting (still 0) rest = Some (Some Bad2, st')"
    using a by blast
  have 2: "\<nexists>st'. occult clock drifting (still 0) rest = Some (Some Bad1, st')"
    using a by blast
  have 3: "\<exists>st'. occult clock (still (1 / 2)) (still 0) rest = Some (None, st')"
    using b coarse_still [of "1 / 2" 0] medium_still_half margin_still_half by blast
  have 4: "medium_k drifting (still 0) rest 1 \<noteq> None"
    using a coarse_drifting by blast
  show ?thesis
    using 1 2 3 4 coarse_drifting medium_drifting margin_drifting fine_drifting margin_still_half
    by blast
qed

text \<open>
  The claim as stated fails for two bodies that stay at the same place with
  semidiameter zero: every pass finds its minimum, so neither error is due and the
  claim promises \<open>nil\<close>, but the separation never exceeds the sum of the
  semidiameters and the first contact loop never stops; \<open>occult\<close> returns nothing.
\<close>

theorem occult_returns_nil_counterexample:
  "coarse_k (still 0) (still 0) = Some 1 \<and> medium_k (still 0) (still 0) rest 1 = Some 1 \<and>
   \<not> margin_far (still 0) (still 0) rest 1 1 \<and>
   fine_k clock (still 0) (still 0) rest 1 1 = Some 1 \<and>
   occult clock (still 0) (still 0) rest = None"
  using coarse_still [of 0 0] medium_still_zero margin_still_zero fine_still occult_still_diverges
  by blast

end
